theory Spec2Isabelle
  imports Main
begin

section \<open>Data model (types.ts)\<close>

text \<open>
  The TypeScript interfaces become records, the string-literal unions become datatypes and
  an optional field \<open>f?: T\<close> becomes \<open>T option\<close> (\<open>None\<close> is \<open>undefined\<close>).
  JavaScript numbers that hold line indices, array indices and whole seconds are modelled
  as \<open>int\<close>; strings are \<open>string\<close>.
\<close>

datatype WorkoutState = wPlanned | wStarted | wCompleted

datatype ExerciseState = pending | inProgress | completed | skipped

record ExerciseParam =
  key :: string
  "value" :: string
  editable :: bool
  unit :: "string option"

text \<open>
  \<open>restDuration\<close> is read by the orchestrator (\<open>currentParsed.metadata.restDuration\<close>)
  but the interface declaring it is not part of the sources at hand.
  Modelled from the spec: \<open>restDuration\<close> is the optional default rest length of the
  metadata, a number of seconds that \<open>addRest\<close> turns into a time literal.
\<close>

record WorkoutMetadata =
  title :: "string option"
  wstate :: WorkoutState
  startDate :: "string option"
  duration :: "string option"
  restDuration :: "int option"

record Exercise =
  state :: ExerciseState
  name :: string
  params :: "ExerciseParam list"
  targetDuration :: "int option"
  recordedDuration :: "string option"
  lineIndex :: int

record ParsedWorkout =
  metadata :: WorkoutMetadata
  exercises :: "Exercise list"
  rawLines :: "string list"
  metadataEndIndex :: int

record TimerState =
  workoutElapsed :: int
  exerciseElapsed :: int
  remaining :: "int option"
  isOvertime :: bool

section \<open>JavaScript array and string primitives\<close>

text \<open>
  \<open>xs[i]\<close> for a number \<open>i\<close>: the element when \<open>0 \<le> i < xs.length\<close>, otherwise
  \<open>undefined\<close>.
\<close>

definition at_index :: "'a list \<Rightarrow> int \<Rightarrow> 'a option" where
  "at_index xs i = (if 0 \<le> i \<and> i < int (length xs) then Some (xs ! nat i) else None)"

text \<open>
  \<open>xs.findIndex((e, i) => P e i)\<close>: the first index whose element satisfies the
  predicate, \<open>-1\<close> when there is none.
\<close>

fun findIndexFrom :: "('a \<Rightarrow> int \<Rightarrow> bool) \<Rightarrow> int \<Rightarrow> 'a list \<Rightarrow> int" where
  "findIndexFrom P k [] = -1"
| "findIndexFrom P k (x # xs) = (if P x k then k else findIndexFrom P (k + 1) xs)"

definition findIndex :: "('a \<Rightarrow> int \<Rightarrow> bool) \<Rightarrow> 'a list \<Rightarrow> int" where
  "findIndex P xs = findIndexFrom P 0 xs"

text \<open>
  \<open>const p = xs.find(P); if (p) { p.f = v }\<close> on an array of objects: the first
  element that satisfies \<open>P\<close> is changed, the others stay.
\<close>

fun update_first :: "('a \<Rightarrow> bool) \<Rightarrow> ('a \<Rightarrow> 'a) \<Rightarrow> 'a list \<Rightarrow> 'a list" where
  "update_first P f [] = []"
| "update_first P f (x # xs) = (if P x then f x # xs else x # update_first P f xs)"

text \<open>\<open>xs.splice(k, 0, x)\<close>: insert \<open>x\<close> before position \<open>k\<close> (at the end when \<open>k\<close> is past it).\<close>

definition splice_insert :: "nat \<Rightarrow> 'a \<Rightarrow> 'a list \<Rightarrow> 'a list" where
  "splice_insert k x xs = take k xs @ [x] @ drop k xs"

text \<open>
  \<open>String.prototype.toLowerCase\<close> on the ASCII letters. The source only compares the
  result with \<open>'duration'\<close>, and no character outside \<open>A\<close>..\<open>Z\<close> has a lower-case form
  among the letters of that word.
\<close>

definition toLowerChar :: "char \<Rightarrow> char" where
  "toLowerChar c =
     (if 65 \<le> (of_char c :: nat) \<and> (of_char c :: nat) \<le> 90
      then Char (digit0 c) (digit1 c) (digit2 c) (digit3 c) (digit4 c) True (digit6 c) (digit7 c)
      else c)"

definition toLowerCase :: "string \<Rightarrow> string" where
  "toLowerCase s = map toLowerChar s"

section \<open>Workout mutation engine (serializer.ts), on values\<close>

text \<open>
  Every function starts with \<open>structuredClone(parsed)\<close> and works on the copy. On values
  a deep copy is the identity, so the functions below compute the value of the object
  that the source returns. Which object is returned (a fresh one or the argument itself)
  is the subject of the store model further down.
\<close>

definition updateParamValue :: "ParsedWorkout \<Rightarrow> int \<Rightarrow> string \<Rightarrow> string \<Rightarrow> ParsedWorkout" where
  "updateParamValue parsed exerciseIndex paramKey newValue =
     (case at_index (exercises parsed) exerciseIndex of
        None \<Rightarrow> parsed
      | Some exercise \<Rightarrow>
          parsed\<lparr>exercises := (exercises parsed)[nat exerciseIndex :=
            exercise\<lparr>params :=
              update_first (\<lambda>p. key p = paramKey) (\<lambda>p. p\<lparr>value := newValue\<rparr>) (params exercise)\<rparr>]\<rparr>)"

definition updateExerciseState :: "ParsedWorkout \<Rightarrow> int \<Rightarrow> ExerciseState \<Rightarrow> ParsedWorkout" where
  "updateExerciseState parsed exerciseIndex newState =
     (case at_index (exercises parsed) exerciseIndex of
        None \<Rightarrow> parsed
      | Some exercise \<Rightarrow>
          parsed\<lparr>exercises := (exercises parsed)[nat exerciseIndex := exercise\<lparr>state := newState\<rparr>]\<rparr>)"

definition lockAllFields :: "ParsedWorkout \<Rightarrow> ParsedWorkout" where
  "lockAllFields parsed =
     parsed\<lparr>exercises :=
       map (\<lambda>exercise. exercise\<lparr>params := map (\<lambda>param. param\<lparr>editable := False\<rparr>) (params exercise)\<rparr>)
         (exercises parsed)\<rparr>"

text \<open>
  \<open>lineIndex\<close> is a JavaScript number: \<open>exercise.lineIndex + 1\<close> and \<open>ex.lineIndex++\<close> add
  on IEEE 754 doubles. For an integer-valued double \<open>x\<close> the sum \<open>x + 1\<close> is exact when
  \<open>-2^53 \<le> x < 2^53\<close>. From \<open>2^53\<close> on the odd integers are not representable and the sum
  is rounded to the nearest double, ties to the even significand: to \<open>x\<close> or \<open>x + 2\<close> where
  the doubles are 2 apart (\<open>2^53 \<le> |x| < 2^54\<close>), and to \<open>x\<close> beyond. The model holds a line
  index as an \<open>int\<close> and increments it with this rounding. \<open>safeInteger\<close> is
  \<open>Number.isSafeInteger\<close>.
\<close>

definition jsInc :: "int \<Rightarrow> int" where
  "jsInc x =
     (if - (2 ^ 53) \<le> x \<and> x < 2 ^ 53 then x + 1
      else if \<bar>x\<bar> < 2 ^ 54 then (if even (x div 2) then x else x + 2)
      else x)"

definition safeInteger :: "int \<Rightarrow> bool" where
  "safeInteger x = (- (2 ^ 53 - 1) \<le> x \<and> x \<le> 2 ^ 53 - 1)"

text \<open>The loop \<open>for (let i = start; i < exercises.length; i++) exercises[i].lineIndex++\<close>.\<close>

function bumpLineIndices :: "nat \<Rightarrow> Exercise list \<Rightarrow> Exercise list" where
  "bumpLineIndices i exs =
     (if i < length exs
      then bumpLineIndices (Suc i) (exs[i := (exs ! i)\<lparr>lineIndex := jsInc (lineIndex (exs ! i))\<rparr>])
      else exs)"
  by pat_completeness auto
termination
  by (relation "measure (\<lambda>(i, exs). length exs - i)") auto

declare bumpLineIndices.simps [simp del]

definition resetDurationParam :: "Exercise \<Rightarrow> ExerciseParam \<Rightarrow> ExerciseParam" where
  "resetDurationParam exercise param =
     (if toLowerCase (key param) = ''duration'' \<and> \<not> editable param
      then param\<lparr>editable := (targetDuration exercise \<noteq> None)\<rparr>
      else param)"

definition newSet :: "Exercise \<Rightarrow> Exercise" where
  "newSet exercise =
     exercise\<lparr>state := pending,
              recordedDuration := None,
              lineIndex := jsInc (lineIndex exercise),
              params := map (resetDurationParam exercise) (params exercise)\<rparr>"

definition addSet :: "ParsedWorkout \<Rightarrow> int \<Rightarrow> ParsedWorkout" where
  "addSet parsed exerciseIndex =
     (case at_index (exercises parsed) exerciseIndex of
        None \<Rightarrow> parsed
      | Some exercise \<Rightarrow>
          parsed\<lparr>exercises :=
            bumpLineIndices (nat exerciseIndex + 2)
              (splice_insert (nat exerciseIndex + 1) (newSet exercise) (exercises parsed))\<rparr>)"

definition isDurationParam :: "ExerciseParam \<Rightarrow> bool" where
  "isDurationParam p = (toLowerCase (key p) = ''duration'')"

definition recordDurationParam :: "string \<Rightarrow> ExerciseParam list \<Rightarrow> ExerciseParam list" where
  "recordDurationParam durationStr ps =
     (case find isDurationParam ps of
        Some durationParam \<Rightarrow>
          update_first isDurationParam (\<lambda>p. p\<lparr>value := durationStr, editable := False\<rparr>) ps
      | None \<Rightarrow>
          ps @ [\<lparr>key = ''Duration'', value = durationStr, editable = False, unit = None\<rparr>])"

definition setRecordedDuration :: "ParsedWorkout \<Rightarrow> int \<Rightarrow> string \<Rightarrow> ParsedWorkout" where
  "setRecordedDuration parsed exerciseIndex durationStr =
     (case at_index (exercises parsed) exerciseIndex of
        None \<Rightarrow> parsed
      | Some exercise \<Rightarrow>
          parsed\<lparr>exercises := (exercises parsed)[nat exerciseIndex :=
            exercise\<lparr>params := recordDurationParam durationStr (params exercise),
                     recordedDuration := Some durationStr\<rparr>]\<rparr>)"

section \<open>Orchestrator callbacks (main.ts, createCallbacks)\<close>

text \<open>
  The functions that the orchestrator imports from the parser modules are not part of the
  sources at hand; they are parameters of the model, collected in one record.
\<close>

record Externals =
  formatDurationHuman :: "int \<Rightarrow> string"
  formatDuration :: "int \<Rightarrow> string"
  serializeMetadata :: "WorkoutMetadata \<Rightarrow> string list"
  serializeExercise :: "Exercise \<Rightarrow> string"

text \<open>\<open>lines.join('\n')\<close> and \<open>content.split('\n')\<close>.\<close>

fun join_lines :: "string list \<Rightarrow> string" where
  "join_lines [] = []"
| "join_lines [l] = l"
| "join_lines (l # ls) = l @ CHR 0x0A # join_lines ls"

fun split_lines :: "string \<Rightarrow> string list" where
  "split_lines [] = [[]]"
| "split_lines (c # cs) =
     (if c = CHR 0x0A then [] # split_lines cs
      else (case split_lines cs of [] \<Rightarrow> [[c]] | l # ls \<Rightarrow> (c # l) # ls))"

definition serializeWorkout :: "Externals \<Rightarrow> ParsedWorkout \<Rightarrow> string" where
  "serializeWorkout X parsed =
     join_lines (serializeMetadata X (metadata parsed) @ [''---'']
                 @ map (serializeExercise X) (exercises parsed))"

text \<open>
  Modelled from the spec: \<open>addRest\<close> is imported from the serializer module but its body
  is not part of the sources at hand. It inserts a synthetic "Rest" exercise after
  \<open>index\<close> with a single Duration parameter set to \<open>restDuration\<close> as a time literal
  (countdown mode), state \<open>pending\<close>; like every function of the mutation engine it
  returns the input when the index is out of range. The spec leaves the editable flag
  and the line indices open; they follow \<open>addSet\<close> here and no theorem below depends on
  them.
\<close>

definition restExercise :: "Externals \<Rightarrow> Exercise \<Rightarrow> int \<Rightarrow> Exercise" where
  "restExercise X exercise rest =
     \<lparr>state = pending, name = ''Rest'',
      params = [\<lparr>key = ''Duration'', value = formatDuration X rest, editable = True, unit = None\<rparr>],
      targetDuration = Some rest, recordedDuration = None,
      lineIndex = jsInc (lineIndex exercise)\<rparr>"

definition addRest :: "Externals \<Rightarrow> ParsedWorkout \<Rightarrow> int \<Rightarrow> int \<Rightarrow> ParsedWorkout" where
  "addRest X parsed exerciseIndex rest =
     (case at_index (exercises parsed) exerciseIndex of
        None \<Rightarrow> parsed
      | Some exercise \<Rightarrow>
          parsed\<lparr>exercises :=
            bumpLineIndices (nat exerciseIndex + 2)
              (splice_insert (nat exerciseIndex + 1) (restExercise X exercise rest) (exercises parsed))\<rparr>)"

text \<open>
  The calls that a callback makes on its collaborators, in the order it makes them:
  \<open>fileUpdater.updateCodeBlock(ctx.sourcePath, sectionInfo, newContent, expectedTitle)\<close>
  and the state-changing operations of the timer manager (the source path, the section
  and the workout identifier are fixed for one set of callbacks and left out).
\<close>

datatype Effect =
    UpdateCodeBlock string "string option"
  | StartWorkoutTimer int
  | StopWorkoutTimer
  | AdvanceExercise int

text \<open>
  The variables that the callbacks close over (\<open>currentParsed\<close>, \<open>hasPendingChanges\<close>),
  and the log of the collaborator calls made so far. A callback is modelled as one atomic
  step; what \<open>timerManager.getTimerState(workoutId)\<close> returns at each of its calls is an
  argument of the step (\<open>None\<close> is \<open>null\<close>: no timer runs for this workout), and
  \<open>onStartWorkout\<close> takes the string that \<open>formatStartDate(new Date())\<close> produced.
\<close>

record Closure =
  currentParsed :: ParsedWorkout
  hasPendingChanges :: bool
  effects :: "Effect list"

definition createCallbacks :: "ParsedWorkout \<Rightarrow> Closure" where
  "createCallbacks parsed = \<lparr>currentParsed = parsed, hasPendingChanges = False, effects = []\<rparr>"

definition call :: "Effect \<Rightarrow> Closure \<Rightarrow> Closure" where
  "call e s = s\<lparr>effects := effects s @ [e]\<rparr>"

definition updateFile :: "Externals \<Rightarrow> ParsedWorkout \<Rightarrow> Closure \<Rightarrow> Closure" where
  "updateFile X newParsed s =
     call (UpdateCodeBlock (serializeWorkout X newParsed) (title (metadata newParsed)))
       (s\<lparr>currentParsed := newParsed, hasPendingChanges := False\<rparr>)"

definition flushChanges :: "Externals \<Rightarrow> Closure \<Rightarrow> Closure" where
  "flushChanges X s = (if hasPendingChanges s then updateFile X (currentParsed s) s else s)"

definition setMetadataState :: "WorkoutState \<Rightarrow> ParsedWorkout \<Rightarrow> ParsedWorkout" where
  "setMetadataState st parsed = parsed\<lparr>metadata := (metadata parsed)\<lparr>wstate := st\<rparr>\<rparr>"

definition setMetadataDuration :: "Externals \<Rightarrow> TimerState option \<Rightarrow> ParsedWorkout \<Rightarrow> ParsedWorkout" where
  "setMetadataDuration X timerState parsed =
     (case timerState of
        None \<Rightarrow> parsed
      | Some t \<Rightarrow>
          parsed\<lparr>metadata := (metadata parsed)\<lparr>duration := Some (formatDurationHuman X (workoutElapsed t))\<rparr>\<rparr>)"

definition recordElapsed :: "Externals \<Rightarrow> TimerState option \<Rightarrow> int \<Rightarrow> ParsedWorkout \<Rightarrow> ParsedWorkout" where
  "recordElapsed X timerState exerciseIndex parsed =
     (case timerState of
        None \<Rightarrow> parsed
      | Some t \<Rightarrow> setRecordedDuration parsed exerciseIndex (formatDurationHuman X (exerciseElapsed t)))"

definition onStartWorkout :: "Externals \<Rightarrow> string \<Rightarrow> Closure \<Rightarrow> Closure" where
  "onStartWorkout X startDateStr s =
     (let p0 = currentParsed s;
          p1 = p0\<lparr>metadata := (metadata p0)\<lparr>wstate := wStarted, startDate := Some startDateStr\<rparr>\<rparr>;
          firstPending = findIndex (\<lambda>e i. state e = pending) (exercises p1);
          p2 = (if firstPending \<ge> 0
                then (case at_index (exercises p1) firstPending of
                        None \<Rightarrow> p1
                      | Some exercise \<Rightarrow>
                          p1\<lparr>exercises := (exercises p1)[nat firstPending := exercise\<lparr>state := inProgress\<rparr>]\<rparr>)
                else p1)
      in call (StartWorkoutTimer (if firstPending \<ge> 0 then firstPending else 0))
           (updateFile X p2 (s\<lparr>hasPendingChanges := False\<rparr>)))"

definition onFinishWorkout :: "Externals \<Rightarrow> TimerState option \<Rightarrow> Closure \<Rightarrow> Closure" where
  "onFinishWorkout X timerState s =
     (let p1 = setMetadataDuration X timerState (currentParsed s);
          p2 = setMetadataState wCompleted p1;
          p3 = lockAllFields p2
      in call StopWorkoutTimer (updateFile X p3 s))"

definition nextPendingAfter :: "int \<Rightarrow> ParsedWorkout \<Rightarrow> int" where
  "nextPendingAfter exerciseIndex parsed =
     findIndex (\<lambda>e i. i > exerciseIndex \<and> state e = pending) (exercises parsed)"

definition onExerciseFinish ::
  "Externals \<Rightarrow> int \<Rightarrow> TimerState option \<Rightarrow> TimerState option \<Rightarrow> Closure \<Rightarrow> Closure" where
  "onExerciseFinish X exerciseIndex timerState finalState s0 =
     (let s = s0\<lparr>hasPendingChanges := False\<rparr> in
      case at_index (exercises (currentParsed s)) exerciseIndex of
        None \<Rightarrow> s
      | Some exercise \<Rightarrow>
         (let p1 = recordElapsed X timerState exerciseIndex (currentParsed s);
              p2 = updateExerciseState p1 exerciseIndex completed;
              nextPending = nextPendingAfter exerciseIndex p2
          in if nextPending \<ge> 0
             then (let p3 = updateExerciseState p2 nextPending inProgress
                   in updateFile X p3 (call (AdvanceExercise nextPending) s))
             else (let p3 = setMetadataState wCompleted p2;
                       p4 = setMetadataDuration X finalState p3;
                       p5 = lockAllFields p4
                   in call StopWorkoutTimer (updateFile X p5 s))))"

definition onExerciseAddSet :: "Externals \<Rightarrow> int \<Rightarrow> TimerState option \<Rightarrow> Closure \<Rightarrow> Closure" where
  "onExerciseAddSet X exerciseIndex timerState s0 =
     (let s = s0\<lparr>hasPendingChanges := False\<rparr> in
      case at_index (exercises (currentParsed s)) exerciseIndex of
        None \<Rightarrow> s
      | Some exercise \<Rightarrow>
         (let p1 = recordElapsed X timerState exerciseIndex (currentParsed s);
              p2 = updateExerciseState p1 exerciseIndex completed;
              p3 = addSet p2 exerciseIndex;
              p4 = updateExerciseState p3 (exerciseIndex + 1) inProgress
          in updateFile X p4 (call (AdvanceExercise (exerciseIndex + 1)) s)))"

definition onExerciseAddRest :: "Externals \<Rightarrow> int \<Rightarrow> TimerState option \<Rightarrow> Closure \<Rightarrow> Closure" where
  "onExerciseAddRest X exerciseIndex timerState s0 =
     (let s = s0\<lparr>hasPendingChanges := False\<rparr> in
      case at_index (exercises (currentParsed s)) exerciseIndex of
        None \<Rightarrow> s
      | Some exercise \<Rightarrow>
         (case restDuration (metadata (currentParsed s)) of
            None \<Rightarrow> s
          | Some rest \<Rightarrow>
              if rest = 0 then s
              else (let p1 = recordElapsed X timerState exerciseIndex (currentParsed s);
                        p2 = updateExerciseState p1 exerciseIndex completed;
                        p3 = addRest X p2 exerciseIndex rest;
                        p4 = updateExerciseState p3 (exerciseIndex + 1) inProgress
                    in updateFile X p4 (call (AdvanceExercise (exerciseIndex + 1)) s))))"

definition elapsedPositive :: "TimerState option \<Rightarrow> TimerState option" where
  "elapsedPositive timerState =
     (case timerState of
        None \<Rightarrow> None
      | Some t \<Rightarrow> if exerciseElapsed t > 0 then Some t else None)"

definition onExerciseSkip ::
  "Externals \<Rightarrow> int \<Rightarrow> TimerState option \<Rightarrow> TimerState option \<Rightarrow> Closure \<Rightarrow> Closure" where
  "onExerciseSkip X exerciseIndex timerState finalState s0 =
     (let s = s0\<lparr>hasPendingChanges := False\<rparr>;
          p1 = recordElapsed X (elapsedPositive timerState) exerciseIndex (currentParsed s);
          p2 = updateExerciseState p1 exerciseIndex skipped;
          nextPending = nextPendingAfter exerciseIndex p2
      in if nextPending \<ge> 0
         then (let p3 = updateExerciseState p2 nextPending inProgress
               in updateFile X p3 (call (AdvanceExercise nextPending) s))
         else (let p3 = setMetadataState wCompleted p2;
                   p4 = setMetadataDuration X finalState p3;
                   p5 = lockAllFields p4
               in updateFile X p5 (call StopWorkoutTimer s)))"

definition onParamChange :: "int \<Rightarrow> string \<Rightarrow> string \<Rightarrow> Closure \<Rightarrow> Closure" where
  "onParamChange exerciseIndex paramKey newValue s =
     (let param = (case at_index (exercises (currentParsed s)) exerciseIndex of
                     None \<Rightarrow> None
                   | Some exercise \<Rightarrow> find (\<lambda>p. key p = paramKey) (params exercise))
      in if map_option value param = Some newValue then s
         else s\<lparr>currentParsed := updateParamValue (currentParsed s) exerciseIndex paramKey newValue,
                hasPendingChanges := True\<rparr>)"

section \<open>Example data\<close>

definition exampleExternals :: Externals where
  "exampleExternals =
     \<lparr>formatDurationHuman = (\<lambda>n. if n = 0 then ''0s'' else ''42s''),
      formatDuration = (\<lambda>n. ''45s''),
      serializeMetadata = (\<lambda>m. (case title m of None \<Rightarrow> [] | Some t \<Rightarrow> [''title: '' @ t])),
      serializeExercise = (\<lambda>e. ''- [ ] '' @ name e)\<rparr>"

definition squats :: Exercise where
  "squats =
     \<lparr>state = pending, name = ''Squats'',
      params = [\<lparr>key = ''Weight'', value = ''60'', editable = True, unit = Some ''kg''\<rparr>,
                \<lparr>key = ''Reps'', value = ''10'', editable = True, unit = None\<rparr>],
      targetDuration = None, recordedDuration = None, lineIndex = 0\<rparr>"

definition plank :: Exercise where
  "plank =
     \<lparr>state = pending, name = ''Plank'',
      params = [\<lparr>key = ''Duration'', value = ''60s'', editable = True, unit = None\<rparr>],
      targetDuration = Some 60, recordedDuration = None, lineIndex = 1\<rparr>"

definition exampleWorkout :: ParsedWorkout where
  "exampleWorkout =
     \<lparr>metadata = \<lparr>title = Some ''Morning Workout'', wstate = wPlanned, startDate = None,
                  duration = None, restDuration = None\<rparr>,
      exercises = [squats, plank],
      rawLines = [], metadataEndIndex = 1\<rparr>"

definition runWorkout :: ParsedWorkout where
  "runWorkout =
     \<lparr>metadata = \<lparr>title = Some ''Cardio'', wstate = wStarted, startDate = Some ''2025-01-01 10:00'',
                  duration = None, restDuration = None\<rparr>,
      exercises = [\<lparr>state = inProgress, name = ''Run'',
                    params = [\<lparr>key = ''Duration'', value = ''5 min'', editable = True, unit = None\<rparr>],
                    targetDuration = None, recordedDuration = Some ''5 min'', lineIndex = 0\<rparr>],
      rawLines = [], metadataEndIndex = 4\<rparr>"

definition threeWorkout :: ParsedWorkout where
  "threeWorkout = exampleWorkout\<lparr>exercises := [squats, plank, squats\<lparr>lineIndex := 2\<rparr>]\<rparr>"

section \<open>Sequences of callbacks and the single-active invariant\<close>

definition exerciseStates :: "ParsedWorkout \<Rightarrow> ExerciseState list" where
  "exerciseStates p = map state (exercises p)"

definition activeCount :: "ParsedWorkout \<Rightarrow> nat" where
  "activeCount p = length (filter (\<lambda>e. state e = inProgress) (exercises p))"

text \<open>At most one exercise is \<open>inProgress\<close>.\<close>

definition singleActive :: "ParsedWorkout \<Rightarrow> bool" where
  "singleActive p = (activeCount p \<le> 1)"

text \<open>An exercise is \<open>inProgress\<close> only while the workout is \<open>started\<close>.\<close>

definition activeOnlyWhileStarted :: "ParsedWorkout \<Rightarrow> bool" where
  "activeOnlyWhileStarted p = (activeCount p = 0 \<or> wstate (metadata p) = wStarted)"

text \<open>
  One invocation of a callback, with the values the environment supplies to it: the
  formatted date, and what the timer manager answers to each \<open>getTimerState\<close>.
\<close>

datatype Action =
    StartWorkout string
  | FinishWorkout "TimerState option"
  | ExerciseFinish int "TimerState option" "TimerState option"
  | ExerciseAddSet int "TimerState option"
  | ExerciseAddRest int "TimerState option"
  | ExerciseSkip int "TimerState option" "TimerState option"

fun perform :: "Externals \<Rightarrow> Closure \<Rightarrow> Action \<Rightarrow> Closure" where
  "perform X s (StartWorkout d) = onStartWorkout X d s"
| "perform X s (FinishWorkout t) = onFinishWorkout X t s"
| "perform X s (ExerciseFinish i t f) = onExerciseFinish X i t f s"
| "perform X s (ExerciseAddSet i t) = onExerciseAddSet X i t s"
| "perform X s (ExerciseAddRest i t) = onExerciseAddRest X i t s"
| "perform X s (ExerciseSkip i t f) = onExerciseSkip X i t f s"

definition run :: "Externals \<Rightarrow> Closure \<Rightarrow> Action list \<Rightarrow> Closure" where
  "run X s acts = foldl (perform X) s acts"

text \<open>
  The renderer offers the exercise controls only on the active exercise
  (\<open>if (isActive && workoutState === 'started') renderExerciseControls(...)\<close>), and a
  workout is started once. \<open>enabled\<close> describes these invocations: an exercise callback
  on the index of an exercise that is \<open>inProgress\<close>, \<open>onStartWorkout\<close> on a planned
  workout, \<open>onFinishWorkout\<close> at any time.
\<close>

definition isActive :: "ParsedWorkout \<Rightarrow> int \<Rightarrow> bool" where
  "isActive p i = (case at_index (exercises p) i of None \<Rightarrow> False | Some e \<Rightarrow> state e = inProgress)"

fun enabled :: "Closure \<Rightarrow> Action \<Rightarrow> bool" where
  "enabled s (StartWorkout d) = (wstate (metadata (currentParsed s)) = wPlanned)"
| "enabled s (FinishWorkout t) = True"
| "enabled s (ExerciseFinish i t f) = isActive (currentParsed s) i"
| "enabled s (ExerciseAddSet i t) = isActive (currentParsed s) i"
| "enabled s (ExerciseAddRest i t) = isActive (currentParsed s) i"
| "enabled s (ExerciseSkip i t f) = isActive (currentParsed s) i"

fun legal :: "Externals \<Rightarrow> Closure \<Rightarrow> Action list \<Rightarrow> bool" where
  "legal X s [] = True"
| "legal X s (a # acts) = (enabled s a \<and> legal X (perform X s a) acts)"

fun isFinishWorkout :: "Action \<Rightarrow> bool" where
  "isFinishWorkout (FinishWorkout t) = True"
| "isFinishWorkout a = False"

definition activeWorkout :: ParsedWorkout where
  "activeWorkout =
     \<lparr>metadata = \<lparr>title = Some ''Morning Workout'', wstate = wStarted,
                  startDate = Some ''2025-01-01 10:00'', duration = None, restDuration = Some 45\<rparr>,
      exercises = [squats\<lparr>state := inProgress\<rparr>, plank],
      rawLines = [], metadataEndIndex = 5\<rparr>"

definition exampleTimerState :: TimerState where
  "exampleTimerState = \<lparr>workoutElapsed = 100, exerciseElapsed = 12, remaining = None, isOvertime = False\<rparr>"

definition activeClosure :: Closure where
  "activeClosure = createCallbacks activeWorkout"

definition startDay :: string where
  "startDay = ''2025-01-01 10:00''"

text \<open>
  The invariant that every enabled callback preserves, and what one exercise callback
  on the active exercise establishes.
\<close>

definition inv1 :: "ParsedWorkout \<Rightarrow> bool" where
  "inv1 p = (singleActive p \<and> (wstate (metadata p) = wPlanned \<longrightarrow> activeCount p = 0))"

definition stepResult :: "ParsedWorkout \<Rightarrow> ParsedWorkout \<Rightarrow> bool" where
  "stepResult p p' = (singleActive p' \<and>
     ((activeCount p' = 0 \<and> wstate (metadata p') = wCompleted) \<or> wstate (metadata p') = wstate (metadata p)))"

definition exampleSession :: "Action list" where
  "exampleSession =
     [StartWorkout startDay, ExerciseAddSet 0 (Some exampleTimerState),
      ExerciseFinish 1 (Some exampleTimerState) None, ExerciseSkip 2 None (Some exampleTimerState)]"

section \<open>File updater (file/updater.ts)\<close>

text \<open>
  The vault maps a path to a file or a folder (\<open>getAbstractFileByPath\<close>);
  \<open>vault.process(file, f)\<close> replaces the content of the file by \<open>f(content)\<close>. The
  section info holds the lines of the opening and the closing fence of the code block.
\<close>

datatype AbstractFile = TFile string | TFolder

record SectionInfo =
  lineStart :: nat
  lineEnd :: nat

type_synonym Vault = "string \<Rightarrow> AbstractFile option"

text \<open>
  The replacement of the lines between the fences, as \<open>updateCodeBlock\<close> of the revision
  at hand computes it inside \<open>vault.process\<close>.
\<close>

definition replaceBlock :: "SectionInfo \<Rightarrow> string \<Rightarrow> string \<Rightarrow> string" where
  "replaceBlock sectionInfo newContent content =
     (let lines = split_lines content;
          beforeFence = take (lineStart sectionInfo + 1) lines;
          afterFence = drop (lineEnd sectionInfo) lines
      in join_lines (beforeFence @ [newContent] @ afterFence))"

text \<open>
  Modelled from the spec: the orchestrator calls \<open>updateCodeBlock(ctx.sourcePath,
  sectionInfo, newContent, expectedTitle)\<close>, but the updater with the fourth parameter is
  not part of the sources at hand; the \<open>updateCodeBlock\<close> there is that of an earlier
  revision, with three parameters and no validation. From the spec: given a source
  identifier and the start and end line of the block, the updater replaces the block's
  inner text with the serialized output; it must validate that the block at that
  location still matches the expected title before writing, and on a mismatch of the
  block's identity against the expected title the write is refused. The title of a block
  is the value of its \<open>title\<close> metadata line (\<open><key>: <value>\<close>, before the separator
  \<open>---\<close>). A block without a title line, or a call without an expected title, is no
  mismatch: \<open>onAddSample\<close> writes a titled sample into a block that has none. The lookup
  of the file, the missing section info and the replacement are those of the earlier
  revision.
\<close>

definition trim :: "string \<Rightarrow> string" where
  "trim s = rev (dropWhile (\<lambda>c. c = CHR '' '') (rev (dropWhile (\<lambda>c. c = CHR '' '') s)))"

definition blockLines :: "SectionInfo \<Rightarrow> string \<Rightarrow> string list" where
  "blockLines sectionInfo content =
     take (lineEnd sectionInfo - (lineStart sectionInfo + 1))
       (drop (lineStart sectionInfo + 1) (split_lines content))"

definition blockTitle :: "string list \<Rightarrow> string option" where
  "blockTitle ls =
     map_option (\<lambda>l. trim (drop 6 l))
       (find (\<lambda>l. take 6 l = ''title:'') (takeWhile (\<lambda>l. l \<noteq> ''---'') ls))"

definition titleMismatch :: "string list \<Rightarrow> string option \<Rightarrow> bool" where
  "titleMismatch ls expectedTitle =
     (case blockTitle ls of
        None \<Rightarrow> False
      | Some actual \<Rightarrow> (case expectedTitle of None \<Rightarrow> False | Some expected \<Rightarrow> actual \<noteq> expected))"

definition updateCodeBlock ::
  "Vault \<Rightarrow> string \<Rightarrow> SectionInfo option \<Rightarrow> string \<Rightarrow> string option \<Rightarrow> Vault" where
  "updateCodeBlock vault sourcePath sectionInfo newContent expectedTitle =
     (case vault sourcePath of
        Some (TFile content) \<Rightarrow>
          (case sectionInfo of
             None \<Rightarrow> vault
           | Some si \<Rightarrow>
               if titleMismatch (blockLines si content) expectedTitle then vault
               else vault(sourcePath \<mapsto> TFile (replaceBlock si newContent content)))
      | _ \<Rightarrow> vault)"


definition legDayNote :: string where
  "legDayNote = join_lines
     [''```workout'', ''title: Leg Day'', ''state: planned'', ''---'', ''- [ ] Lunges'', ''```'']"

definition legDayVault :: Vault where
  "legDayVault = [''note.md'' \<mapsto> TFile legDayNote]"


definition legDayText :: string where
  "legDayText = join_lines [''title: Leg Day'', ''state: started'', ''---'', ''- [x] Lunges'']"

section \<open>Timer manager (timer/manager.ts)\<close>

text \<open>
  Modelled from the spec: the timer manager is not part of the sources at hand. From the
  spec: a \<open>TimerInstance\<close> holds \<open>workoutStartTime\<close>, \<open>exerciseStartTime\<close>,
  \<open>exercisePausedTime\<close> (cumulative paused duration subtracted from elapsed), \<open>isPaused\<close>
  and \<open>activeExerciseIndex\<close>; on pause the pause start is recorded.
  \<open>startWorkoutTimer(id, activeIndex)\<close> creates an instance with \<open>workoutStartTime =
  exerciseStartTime = now\<close>, \<open>exercisePausedTime = 0\<close>, \<open>isPaused = false\<close>;
  \<open>stopWorkoutTimer(id)\<close> destroys the instance; \<open>advanceExercise(id, newIndex)\<close> resets
  \<open>exerciseStartTime = now\<close>, \<open>exercisePausedTime = 0\<close>, \<open>isPaused = false\<close> and sets
  \<open>activeExerciseIndex = newIndex\<close>; \<open>getTimerState(id)\<close> has \<open>workoutElapsed = now -
  workoutStartTime\<close>, \<open>exerciseElapsed = now - exerciseStartTime - exercisePausedTime\<close>
  less the ongoing pause span if paused, \<open>remaining = targetDuration - exerciseElapsed\<close>
  and \<open>isOvertime = remaining < 0\<close> if the exercise has a target duration, and otherwise
  no \<open>remaining\<close> and \<open>isOvertime = false\<close>. The clock is a number of seconds; the timer
  of the one workout that a set of callbacks belongs to is an optional instance (\<open>None\<close>:
  no timer runs).
\<close>

record TimerInstance =
  workoutStartTime :: int
  exerciseStartTime :: int
  exercisePausedTime :: int
  isPaused :: bool
  pauseStartTime :: int
  activeExerciseIndex :: int

definition startWorkoutTimer :: "int \<Rightarrow> int \<Rightarrow> TimerInstance option \<Rightarrow> TimerInstance option" where
  "startWorkoutTimer now activeIndex tm =
     Some \<lparr>workoutStartTime = now, exerciseStartTime = now, exercisePausedTime = 0,
           isPaused = False, pauseStartTime = now, activeExerciseIndex = activeIndex\<rparr>"

definition stopWorkoutTimer :: "TimerInstance option \<Rightarrow> TimerInstance option" where
  "stopWorkoutTimer tm = None"

definition advanceExercise :: "int \<Rightarrow> int \<Rightarrow> TimerInstance option \<Rightarrow> TimerInstance option" where
  "advanceExercise now newIndex tm =
     map_option (\<lambda>inst. inst\<lparr>exerciseStartTime := now, exercisePausedTime := 0,
                             isPaused := False, activeExerciseIndex := newIndex\<rparr>) tm"

definition getTimerState :: "int \<Rightarrow> int option \<Rightarrow> TimerInstance option \<Rightarrow> TimerState option" where
  "getTimerState now target tm =
     map_option
       (\<lambda>inst.
          let elapsed = now - exerciseStartTime inst - exercisePausedTime inst
                        - (if isPaused inst then now - pauseStartTime inst else 0);
              rem = map_option (\<lambda>td. td - elapsed) target
          in \<lparr>workoutElapsed = now - workoutStartTime inst, exerciseElapsed = elapsed,
              remaining = rem,
              isOvertime = (case rem of None \<Rightarrow> False | Some r \<Rightarrow> r < 0)\<rparr>) tm"

text \<open>
  What a logged call does to the timer when it is made at time \<open>now\<close>, and the timer as
  it stands when a callback that runs at time \<open>now\<close> issues its write: the calls logged
  before the first \<open>updateCodeBlock\<close> have been made, the later ones have not.
\<close>

definition timerCall :: "int \<Rightarrow> Effect \<Rightarrow> TimerInstance option \<Rightarrow> TimerInstance option" where
  "timerCall now e tm =
     (case e of
        UpdateCodeBlock newContent expectedTitle \<Rightarrow> tm
      | StartWorkoutTimer activeIndex \<Rightarrow> startWorkoutTimer now activeIndex tm
      | StopWorkoutTimer \<Rightarrow> stopWorkoutTimer tm
      | AdvanceExercise newIndex \<Rightarrow> advanceExercise now newIndex tm)"

fun isWrite :: "Effect \<Rightarrow> bool" where
  "isWrite (UpdateCodeBlock newContent expectedTitle) = True"
| "isWrite e = False"

definition timerAtWrite :: "int \<Rightarrow> Effect list \<Rightarrow> TimerInstance option \<Rightarrow> TimerInstance option" where
  "timerAtWrite now es tm = fold (timerCall now) (takeWhile (\<lambda>e. \<not> isWrite e) es) tm"

text \<open>
  \<open>readsFreshTimer s r\<close>: whatever timer was running before the callback that took the
  closure from \<open>s\<close> to \<open>r\<close> at time \<open>now\<close>, a query of the timer at a time \<open>t\<close>, made once
  the write of that callback has been issued, finds the timer running and reports the
  time since \<open>now\<close> as the exercise's elapsed time: nothing of the previous exercise's
  start, pauses or elapsed time is left in it.
\<close>

definition readsFreshTimer :: "Closure \<Rightarrow> Closure \<Rightarrow> bool" where
  "readsFreshTimer s r =
     (\<forall>now t target inst.
        map_option exerciseElapsed
          (getTimerState t target
             (timerAtWrite now (drop (length (effects s)) (effects r)) (Some inst)))
        = Some (t - now))"

definition pausedTimer :: TimerInstance where
  "pausedTimer =
     \<lparr>workoutStartTime = 1000, exerciseStartTime = 1060, exercisePausedTime = 5,
      isPaused = True, pauseStartTime = 1070, activeExerciseIndex = 0\<rparr>"

section \<open>Workout mutation engine (serializer.ts), on a store of objects\<close>

text \<open>
  To say which object a function returns and which objects it writes to, the workout is
  laid out in a store: every JavaScript object and array is a cell with an address, and
  a field that holds an object holds its address. A parameter object and the metadata
  object have primitive fields only; an exercise object refers to its \<open>params\<close> array,
  the workout object to its metadata, its \<open>exercises\<close> array and its \<open>rawLines\<close> array.
  The store is a list of cells, the address of a cell is its position, and a new object
  is appended.
\<close>

type_synonym addr = nat

datatype cell =
    ParamObj ExerciseParam
  | ExerciseObj ExerciseState string addr "int option" "string option" int
  | ArrayObj "addr list"
  | StringsObj "string list"
  | MetadataObj WorkoutMetadata
  | WorkoutObj addr addr addr int

type_synonym store = "cell list"

fun refs :: "cell \<Rightarrow> addr list" where
  "refs (ParamObj p) = []"
| "refs (ExerciseObj st nm pa td rd li) = [pa]"
| "refs (ArrayObj as) = as"
| "refs (StringsObj ls) = []"
| "refs (MetadataObj m) = []"
| "refs (WorkoutObj m e r k) = [m, e, r]"

definition cell_at :: "store \<Rightarrow> addr \<Rightarrow> cell option" where
  "cell_at h a = (if a < length h then Some (h ! a) else None)"

text \<open>The objects reachable from \<open>r\<close>: what a holder of the reference \<open>r\<close> can read or write.\<close>

inductive reach :: "store \<Rightarrow> addr \<Rightarrow> addr \<Rightarrow> bool" for h r where
  reach_root: "reach h r r"
| reach_step: "reach h r a \<Longrightarrow> cell_at h a = Some c \<Longrightarrow> b \<in> set (refs c) \<Longrightarrow> reach h r b"

text \<open>No cell refers to an address outside the store.\<close>

definition wf_store :: "store \<Rightarrow> bool" where
  "wf_store h = list_all (\<lambda>c. list_all (\<lambda>b. b < length h) (refs c)) h"

subsection \<open>The value of an object\<close>

definition readParam :: "store \<Rightarrow> addr \<Rightarrow> ExerciseParam option" where
  "readParam h a = (case cell_at h a of Some (ParamObj p) \<Rightarrow> Some p | _ \<Rightarrow> None)"

definition readExercise :: "store \<Rightarrow> addr \<Rightarrow> Exercise option" where
  "readExercise h a =
     (case cell_at h a of
        Some (ExerciseObj st nm pa td rd li) \<Rightarrow>
          (case cell_at h pa of
             Some (ArrayObj pas) \<Rightarrow>
               (case those (map (readParam h) pas) of
                  Some ps \<Rightarrow> Some \<lparr>state = st, name = nm, params = ps, targetDuration = td,
                                    recordedDuration = rd, lineIndex = li\<rparr>
                | None \<Rightarrow> None)
           | _ \<Rightarrow> None)
      | _ \<Rightarrow> None)"

definition readWorkout :: "store \<Rightarrow> addr \<Rightarrow> ParsedWorkout option" where
  "readWorkout h r =
     (case cell_at h r of
        Some (WorkoutObj m e rl k) \<Rightarrow>
          (case cell_at h m of
             Some (MetadataObj md) \<Rightarrow>
               (case cell_at h e of
                  Some (ArrayObj eas) \<Rightarrow>
                    (case cell_at h rl of
                       Some (StringsObj ls) \<Rightarrow>
                         (case those (map (readExercise h) eas) of
                            Some exs \<Rightarrow> Some \<lparr>metadata = md, exercises = exs, rawLines = ls,
                                               metadataEndIndex = k\<rparr>
                          | None \<Rightarrow> None)
                     | _ \<Rightarrow> None)
                | _ \<Rightarrow> None)
           | _ \<Rightarrow> None)
      | _ \<Rightarrow> None)"

subsection \<open>structuredClone\<close>

text \<open>
  A deep copy of a workout (or of one exercise): new cells for the value of the
  argument, children before parents, and the address of the new root. The argument of
  \<open>structuredClone\<close> in the source always is a workout or an exercise; for another
  address there is no result.
\<close>

fun allocParams :: "store \<Rightarrow> ExerciseParam list \<Rightarrow> store \<times> addr list" where
  "allocParams h [] = (h, [])"
| "allocParams h (p # ps) =
     (let (h', as) = allocParams (h @ [ParamObj p]) ps in (h', length h # as))"

definition allocExercise :: "store \<Rightarrow> Exercise \<Rightarrow> store \<times> addr" where
  "allocExercise h e =
     (let (h1, pas) = allocParams h (params e);
          h2 = h1 @ [ArrayObj pas]
      in (h2 @ [ExerciseObj (state e) (name e) (length h1) (targetDuration e)
                  (recordedDuration e) (lineIndex e)], length h2))"

fun allocExercises :: "store \<Rightarrow> Exercise list \<Rightarrow> store \<times> addr list" where
  "allocExercises h [] = (h, [])"
| "allocExercises h (e # es) =
     (let (h1, a) = allocExercise h e;
          (h2, as) = allocExercises h1 es
      in (h2, a # as))"

definition allocWorkout :: "store \<Rightarrow> ParsedWorkout \<Rightarrow> store \<times> addr" where
  "allocWorkout h w =
     (let (h1, eas) = allocExercises h (exercises w);
          m = length h1
      in (h1 @ [MetadataObj (metadata w), ArrayObj eas, StringsObj (rawLines w),
                WorkoutObj m (m + 1) (m + 2) (metadataEndIndex w)], m + 3))"

definition structuredClone :: "store \<Rightarrow> addr \<Rightarrow> (store \<times> addr) option" where
  "structuredClone h r = map_option (allocWorkout h) (readWorkout h r)"

definition structuredCloneExercise :: "store \<Rightarrow> addr \<Rightarrow> (store \<times> addr) option" where
  "structuredCloneExercise h a = map_option (allocExercise h) (readExercise h a)"

subsection \<open>Field access and assignment\<close>

definition arrayElems :: "store \<Rightarrow> addr \<Rightarrow> addr list" where
  "arrayElems h a = (case cell_at h a of Some (ArrayObj as) \<Rightarrow> as | _ \<Rightarrow> [])"

definition exercisesArray :: "store \<Rightarrow> addr \<Rightarrow> addr option" where
  "exercisesArray h r = (case cell_at h r of Some (WorkoutObj m e rl k) \<Rightarrow> Some e | _ \<Rightarrow> None)"

definition paramsArray :: "store \<Rightarrow> addr \<Rightarrow> addr option" where
  "paramsArray h a = (case cell_at h a of Some (ExerciseObj st nm pa td rd li) \<Rightarrow> Some pa | _ \<Rightarrow> None)"

definition exerciseRefs :: "store \<Rightarrow> addr \<Rightarrow> addr list" where
  "exerciseRefs h r = (case exercisesArray h r of Some e \<Rightarrow> arrayElems h e | None \<Rightarrow> [])"

definition paramRefs :: "store \<Rightarrow> addr \<Rightarrow> addr list" where
  "paramRefs h a = (case paramsArray h a of Some pa \<Rightarrow> arrayElems h pa | None \<Rightarrow> [])"

definition modifyParam :: "(ExerciseParam \<Rightarrow> ExerciseParam) \<Rightarrow> addr \<Rightarrow> store \<Rightarrow> store" where
  "modifyParam f a h = (case cell_at h a of Some (ParamObj p) \<Rightarrow> h[a := ParamObj (f p)] | _ \<Rightarrow> h)"

definition setState :: "ExerciseState \<Rightarrow> addr \<Rightarrow> store \<Rightarrow> store" where
  "setState s a h =
     (case cell_at h a of
        Some (ExerciseObj st nm pa td rd li) \<Rightarrow> h[a := ExerciseObj s nm pa td rd li]
      | _ \<Rightarrow> h)"

definition setRecorded :: "string \<Rightarrow> addr \<Rightarrow> store \<Rightarrow> store" where
  "setRecorded d a h =
     (case cell_at h a of
        Some (ExerciseObj st nm pa td rd li) \<Rightarrow> h[a := ExerciseObj st nm pa td (Some d) li]
      | _ \<Rightarrow> h)"

definition incLineIndex :: "addr \<Rightarrow> store \<Rightarrow> store" where
  "incLineIndex a h =
     (case cell_at h a of
        Some (ExerciseObj st nm pa td rd li) \<Rightarrow> h[a := ExerciseObj st nm pa td rd (jsInc li)]
      | _ \<Rightarrow> h)"

definition setElems :: "addr list \<Rightarrow> addr \<Rightarrow> store \<Rightarrow> store" where
  "setElems as a h = (case cell_at h a of Some (ArrayObj old) \<Rightarrow> h[a := ArrayObj as] | _ \<Rightarrow> h)"

subsection \<open>The five functions\<close>

text \<open>
  Each function takes the store and the reference \<open>parsed\<close> and returns the new store
  and the reference it returns. \<open>for (const x of xs)\<close> is a fold over the elements of
  the array.
\<close>

definition updateParamValue_ref ::
  "store \<Rightarrow> addr \<Rightarrow> int \<Rightarrow> string \<Rightarrow> string \<Rightarrow> (store \<times> addr) option" where
  "updateParamValue_ref h parsed exerciseIndex paramKey newValue =
     (case structuredClone h parsed of
        None \<Rightarrow> None
      | Some (h1, newParsed) \<Rightarrow>
          (case at_index (exerciseRefs h1 newParsed) exerciseIndex of
             None \<Rightarrow> Some (h1, parsed)
           | Some exercise \<Rightarrow>
               (case find (\<lambda>a. map_option key (readParam h1 a) = Some paramKey) (paramRefs h1 exercise) of
                  None \<Rightarrow> Some (h1, newParsed)
                | Some param \<Rightarrow> Some (modifyParam (\<lambda>p. p\<lparr>value := newValue\<rparr>) param h1, newParsed))))"

definition updateExerciseState_ref ::
  "store \<Rightarrow> addr \<Rightarrow> int \<Rightarrow> ExerciseState \<Rightarrow> (store \<times> addr) option" where
  "updateExerciseState_ref h parsed exerciseIndex newState =
     (case structuredClone h parsed of
        None \<Rightarrow> None
      | Some (h1, newParsed) \<Rightarrow>
          (case at_index (exerciseRefs h1 newParsed) exerciseIndex of
             None \<Rightarrow> Some (h1, parsed)
           | Some exercise \<Rightarrow> Some (setState newState exercise h1, newParsed)))"

definition lockParams :: "addr \<Rightarrow> store \<Rightarrow> store" where
  "lockParams exercise h = fold (modifyParam (\<lambda>p. p\<lparr>editable := False\<rparr>)) (paramRefs h exercise) h"

definition lockAllFields_ref :: "store \<Rightarrow> addr \<Rightarrow> (store \<times> addr) option" where
  "lockAllFields_ref h parsed =
     (case structuredClone h parsed of
        None \<Rightarrow> None
      | Some (h1, newParsed) \<Rightarrow> Some (fold lockParams (exerciseRefs h1 newParsed) h1, newParsed))"

definition addSet_ref :: "store \<Rightarrow> addr \<Rightarrow> int \<Rightarrow> (store \<times> addr) option" where
  "addSet_ref h parsed exerciseIndex =
     (case structuredClone h parsed of
        None \<Rightarrow> None
      | Some (h1, newParsed) \<Rightarrow>
          (case at_index (exerciseRefs h1 newParsed) exerciseIndex of
             None \<Rightarrow> Some (h1, parsed)
           | Some exercise \<Rightarrow>
               (case readExercise h1 exercise of
                  None \<Rightarrow> None
                | Some ev \<Rightarrow>
                    (case structuredCloneExercise h1 exercise of
                       None \<Rightarrow> None
                     | Some (h2, copy) \<Rightarrow>
                         (case cell_at h2 copy of
                            Some (ExerciseObj st nm pa td rd li) \<Rightarrow>
                              (let newExercise = length h2;
                                   h3 = h2 @ [ExerciseObj pending nm pa td None (jsInc (lineIndex ev))];
                                   h4 = fold (modifyParam (resetDurationParam ev)) (paramRefs h3 newExercise) h3;
                                   h5 = (case exercisesArray h4 newParsed of
                                           None \<Rightarrow> h4
                                         | Some ea \<Rightarrow>
                                             setElems (splice_insert (nat exerciseIndex + 1) newExercise
                                                         (arrayElems h4 ea)) ea h4);
                                   h6 = fold incLineIndex
                                          (drop (nat exerciseIndex + 2) (exerciseRefs h5 newParsed)) h5
                               in Some (h6, newParsed))
                          | _ \<Rightarrow> None)))))"

definition setRecordedDuration_ref ::
  "store \<Rightarrow> addr \<Rightarrow> int \<Rightarrow> string \<Rightarrow> (store \<times> addr) option" where
  "setRecordedDuration_ref h parsed exerciseIndex durationStr =
     (case structuredClone h parsed of
        None \<Rightarrow> None
      | Some (h1, newParsed) \<Rightarrow>
          (case at_index (exerciseRefs h1 newParsed) exerciseIndex of
             None \<Rightarrow> Some (h1, parsed)
           | Some exercise \<Rightarrow>
               (let h2 =
                  (case find (\<lambda>a. map_option isDurationParam (readParam h1 a) = Some True)
                          (paramRefs h1 exercise) of
                     Some durationParam \<Rightarrow>
                       modifyParam (\<lambda>p. p\<lparr>value := durationStr, editable := False\<rparr>) durationParam h1
                   | None \<Rightarrow>
                       (case paramsArray h1 exercise of
                          None \<Rightarrow> h1
                        | Some pa \<Rightarrow>
                            setElems (arrayElems h1 pa @ [length h1]) pa
                              (h1 @ [ParamObj \<lparr>key = ''Duration'', value = durationStr,
                                               editable = False, unit = None\<rparr>])))
                in Some (setRecorded durationStr exercise h2, newParsed))))"

definition exampleStore :: store where
  "exampleStore = fst (allocWorkout [] activeWorkout)"

definition exampleRef :: addr where
  "exampleRef = snd (allocWorkout [] activeWorkout)"

text \<open>
  \<open>grown h0 h\<close>: the store \<open>h\<close> is \<open>h0\<close> followed by new cells, and the new cells refer to
  new cells only.
\<close>

definition grown :: "store \<Rightarrow> store \<Rightarrow> bool" where
  "grown h0 h =
     (length h0 \<le> length h \<and> take (length h0) h = h0 \<and>
      (\<forall>a. length h0 \<le> a \<and> a < length h \<longrightarrow>
         (\<forall>b \<in> set (refs (h ! a)). length h0 \<le> b \<and> b < length h)))"

text \<open>
  What C4 asks of a result: the call returns; every object that existed before has its
  old content, so the value of the input is what it was; and the returned reference
  either is the input itself (\<open>fresh = False\<close>) or reaches no object that the input
  reaches (\<open>fresh = True\<close>).
\<close>

definition pureResult :: "store \<Rightarrow> addr \<Rightarrow> bool \<Rightarrow> (store \<times> addr) option \<Rightarrow> bool" where
  "pureResult h parsed fresh res =
     (case res of
        None \<Rightarrow> False
      | Some (h', r') \<Rightarrow>
          length h \<le> length h' \<and> take (length h) h' = h \<and>
          readWorkout h' parsed = readWorkout h parsed \<and>
          (if fresh then (\<forall>a. reach h' r' a \<longrightarrow> \<not> reach h parsed a) else r' = parsed))"

text \<open>\<open>extends h h'\<close>: the store \<open>h'\<close> is \<open>h\<close> followed by new cells.\<close>

definition extends :: "store \<Rightarrow> store \<Rightarrow> bool" where
  "extends h h' = (\<exists>t. h' = h @ t)"

section \<open>Out-of-range indices\<close>

text \<open>
  C3. For every workout \<open>w\<close> and every exercise index \<open>i\<close> outside the range of
  \<open>exercises w\<close> (negative, or at least the number of exercises), each of
  \<open>updateParamValue\<close>, \<open>updateExerciseState\<close>, \<open>addSet\<close> and \<open>setRecordedDuration\<close>
  returns the input workout unchanged; being total functions, they do not fail.
\<close>

theorem index_out_of_range_returns_input:
  "i < 0 \<or> int (length (exercises w)) \<le> i \<Longrightarrow>
     updateParamValue w i k v = w \<and> updateExerciseState w i s = w \<and>
     addSet w i = w \<and> setRecordedDuration w i d = w"
  by (auto simp: updateParamValue_def updateExerciseState_def addSet_def
      setRecordedDuration_def at_index_def)

theorem index_out_of_range_returns_input_witness:
  "updateParamValue exampleWorkout 2 ''Reps'' ''12'' = exampleWorkout \<and>
   updateExerciseState exampleWorkout 2 completed = exampleWorkout \<and>
   addSet exampleWorkout 2 = exampleWorkout \<and>
   setRecordedDuration exampleWorkout 2 ''42s'' = exampleWorkout \<and>
   updateExerciseState exampleWorkout (- 1) completed = exampleWorkout"
  using index_out_of_range_returns_input [of 2 exampleWorkout "''Reps''" "''12''" completed "''42s''"]
    index_out_of_range_returns_input [of "- 1" exampleWorkout "''Reps''" "''12''" completed "''42s''"]
  by (simp add: exampleWorkout_def)

section \<open>addSet\<close>

lemma bumpLineIndices_eq:
  "bumpLineIndices k xs = take k xs @ map (\<lambda>x. x\<lparr>lineIndex := jsInc (lineIndex x)\<rparr>) (drop k xs)"
proof (induction k xs rule: bumpLineIndices.induct)
  case (1 i exs)
  show ?case
  proof (cases "i < length exs")
    case True
    have "bumpLineIndices i exs
        = bumpLineIndices (Suc i) (exs[i := (exs ! i)\<lparr>lineIndex := jsInc (lineIndex (exs ! i))\<rparr>])"
      using True by (subst bumpLineIndices.simps) simp
    also have "\<dots> = take i exs @ [(exs ! i)\<lparr>lineIndex := jsInc (lineIndex (exs ! i))\<rparr>]
        @ map (\<lambda>x. x\<lparr>lineIndex := jsInc (lineIndex x)\<rparr>) (drop (Suc i) exs)"
      using True "1.IH" by (simp add: take_Suc_conv_app_nth)
    also have "\<dots> = take i exs @ map (\<lambda>x. x\<lparr>lineIndex := jsInc (lineIndex x)\<rparr>) (drop i exs)"
      using True by (simp add: Cons_nth_drop_Suc [symmetric])
    finally show ?thesis .
  next
    case False
    then show ?thesis by (subst bumpLineIndices.simps) simp
  qed
qed

lemma addSet_exercises:
  assumes "0 \<le> i" "i < int (length (exercises w))"
  shows "addSet w i = w\<lparr>exercises :=
      take (nat i + 1) (exercises w) @ [newSet (exercises w ! nat i)]
      @ map (\<lambda>x. x\<lparr>lineIndex := jsInc (lineIndex x)\<rparr>) (drop (nat i + 1) (exercises w))\<rparr>"
proof -
  have len: "nat i + 1 \<le> length (exercises w)" using assms by linarith
  show ?thesis
    using assms len
    by (simp add: addSet_def at_index_def splice_insert_def bumpLineIndices_eq)
qed

text \<open>
  C7, as stated, fails: \<open>addSet\<close> only touches a duration parameter that is locked
  (\<open>!param.editable\<close>). A duration parameter that is already editable stays editable in
  the duplicate, also when the original exercise has no \<open>targetDuration\<close>: here the
  exercise \<open>Run | Duration: [5 min]\<close>, whose bracketed value is not a time literal.
\<close>

theorem addSet_duration_editable_counterexample:
  "targetDuration (exercises runWorkout ! 0) = None \<and>
   params (exercises (addSet runWorkout 0) ! 1)
     = [\<lparr>key = ''Duration'', value = ''5 min'', editable = True, unit = None\<rparr>]"
  by (simp add: addSet_exercises runWorkout_def newSet_def resetDurationParam_def)

text \<open>
  C7, amended. For every workout \<open>w\<close> and in-range index \<open>i\<close> such that the line indices
  of exercise \<open>i\<close> and of the exercises after it are safe integers (of magnitude at most
  \<open>2^53 - 1\<close>, where adding 1 to a JavaScript number is exact), \<open>addSet w i\<close> keeps the
  metadata, the raw lines and the metadata end index, keeps the exercises up to and
  including \<open>i\<close>, and inserts at position \<open>i + 1\<close> a duplicate of exercise \<open>i\<close> whose state
  is \<open>pending\<close>, whose \<open>recordedDuration\<close> is cleared and whose \<open>lineIndex\<close> is one greater
  than the original's. The duplicate has the original's name, target duration and
  parameters (keys, values, units); a duration parameter that is locked in the original
  is editable in the duplicate exactly when the original has a \<open>targetDuration\<close>, and
  every other parameter (an already editable duration parameter included) keeps its
  editable flag. Every exercise after the original moves one position up with its
  \<open>lineIndex\<close> incremented by 1 and is otherwise unchanged.
\<close>

lemma jsInc_safe: "safeInteger x \<Longrightarrow> jsInc x = x + 1"
  by (simp add: jsInc_def safeInteger_def)

lemma jsInc_at_limit: "jsInc (2 ^ 53) = 2 ^ 53"
  by (simp add: jsInc_def)

theorem addSet_inserts_duplicate:
  assumes "0 \<le> i" and "i < int (length (exercises w))"
    and "\<forall>j. nat i \<le> j \<and> j < length (exercises w) \<longrightarrow> safeInteger (lineIndex (exercises w ! j))"
  shows "metadata (addSet w i) = metadata w \<and> rawLines (addSet w i) = rawLines w \<and>
     metadataEndIndex (addSet w i) = metadataEndIndex w \<and>
     length (exercises (addSet w i)) = length (exercises w) + 1 \<and>
     (\<forall>j. j \<le> nat i \<longrightarrow> exercises (addSet w i) ! j = exercises w ! j) \<and>
     state (exercises (addSet w i) ! (nat i + 1)) = pending \<and>
     recordedDuration (exercises (addSet w i) ! (nat i + 1)) = None \<and>
     lineIndex (exercises (addSet w i) ! (nat i + 1)) = lineIndex (exercises w ! nat i) + 1 \<and>
     name (exercises (addSet w i) ! (nat i + 1)) = name (exercises w ! nat i) \<and>
     targetDuration (exercises (addSet w i) ! (nat i + 1)) = targetDuration (exercises w ! nat i) \<and>
     map key (params (exercises (addSet w i) ! (nat i + 1))) = map key (params (exercises w ! nat i)) \<and>
     map value (params (exercises (addSet w i) ! (nat i + 1))) = map value (params (exercises w ! nat i)) \<and>
     map unit (params (exercises (addSet w i) ! (nat i + 1))) = map unit (params (exercises w ! nat i)) \<and>
     map editable (params (exercises (addSet w i) ! (nat i + 1)))
       = map (\<lambda>p. if toLowerCase (key p) = ''duration'' \<and> \<not> editable p
                   then targetDuration (exercises w ! nat i) \<noteq> None else editable p)
           (params (exercises w ! nat i)) \<and>
     (\<forall>j. nat i < j \<and> j < length (exercises w) \<longrightarrow>
        exercises (addSet w i) ! (j + 1) = (exercises w ! j)\<lparr>lineIndex := lineIndex (exercises w ! j) + 1\<rparr>)"
proof -
  let ?n = "nat i" and ?exs = "exercises w"
  let ?bump = "\<lambda>x. x\<lparr>lineIndex := jsInc (lineIndex x)\<rparr>"
  have n: "?n < length ?exs" using assms(1,2) by linarith
  have safe: "jsInc (lineIndex (?exs ! j)) = lineIndex (?exs ! j) + 1" if "?n \<le> j" "j < length ?exs" for j
    using that assms(3) jsInc_safe by blast
  have ex: "exercises (addSet w i) = take (?n + 1) ?exs @ [newSet (?exs ! ?n)] @ map ?bump (drop (?n + 1) ?exs)"
    by (simp add: addSet_exercises [OF assms(1,2)])
  have before: "exercises (addSet w i) ! j = ?exs ! j" if "j \<le> ?n" for j
    using that n by (simp add: ex nth_append)
  have dup: "exercises (addSet w i) ! (?n + 1) = newSet (?exs ! ?n)"
    using n by (simp add: ex nth_append)
  have after: "exercises (addSet w i) ! (j + 1) = (?exs ! j)\<lparr>lineIndex := lineIndex (?exs ! j) + 1\<rparr>"
    if "?n < j" "j < length ?exs" for j
  proof -
    have "exercises (addSet w i) ! (j + 1) = map ?bump (drop (?n + 1) ?exs) ! (j - ?n - 1)"
      using that n by (simp add: ex nth_append nth_Cons')
    also have "\<dots> = ?bump (?exs ! j)" using that by simp
    also have "\<dots> = (?exs ! j)\<lparr>lineIndex := lineIndex (?exs ! j) + 1\<rparr>"
      using safe [of j] that by simp
    finally show ?thesis .
  qed
  have meta: "metadata (addSet w i) = metadata w \<and> rawLines (addSet w i) = rawLines w \<and>
      metadataEndIndex (addSet w i) = metadataEndIndex w"
    by (simp add: addSet_exercises [OF assms(1,2)])
  have len: "length (exercises (addSet w i)) = length ?exs + 1"
    using n by (simp add: ex)
  have fields: "state (newSet e) = pending \<and> recordedDuration (newSet e) = None \<and>
      lineIndex (newSet e) = jsInc (lineIndex e) \<and> name (newSet e) = name e \<and>
      targetDuration (newSet e) = targetDuration e \<and>
      map key (params (newSet e)) = map key (params e) \<and>
      map value (params (newSet e)) = map value (params e) \<and>
      map unit (params (newSet e)) = map unit (params e) \<and>
      map editable (params (newSet e))
        = map (\<lambda>p. if toLowerCase (key p) = ''duration'' \<and> \<not> editable p
                    then targetDuration e \<noteq> None else editable p) (params e)" for e
    by (simp add: newSet_def resetDurationParam_def)
  have li: "jsInc (lineIndex (?exs ! ?n)) = lineIndex (?exs ! ?n) + 1"
    using safe [of ?n] n by simp
  show ?thesis
    apply (simp only: dup)
    using meta len before after fields [of "?exs ! ?n"] li by metis
qed

theorem addSet_inserts_duplicate_witness:
  "(0::int) \<le> 0 \<and> (0::int) < int (length (exercises exampleWorkout)) \<and>
   safeInteger (lineIndex (exercises exampleWorkout ! 0)) \<and>
   safeInteger (lineIndex (exercises exampleWorkout ! 1)) \<and>
   length (exercises (addSet exampleWorkout 0)) = 3 \<and>
   exercises (addSet exampleWorkout 0) ! 0 = squats \<and>
   state (exercises (addSet exampleWorkout 0) ! 1) = pending \<and>
   lineIndex (exercises (addSet exampleWorkout 0) ! 1) = 1 \<and>
   map editable (params (exercises (addSet exampleWorkout 0) ! 1)) = [True, True] \<and>
   exercises (addSet exampleWorkout 0) ! 2 = plank\<lparr>lineIndex := 2\<rparr>"
proof -
  have h1: "(0::int) \<le> 0" by simp
  have h2: "(0::int) < int (length (exercises exampleWorkout))" by (simp add: exampleWorkout_def)
  have s0: "safeInteger (lineIndex (exercises exampleWorkout ! 0))"
    and s1: "safeInteger (lineIndex (exercises exampleWorkout ! 1))"
    by (simp_all add: exampleWorkout_def squats_def plank_def safeInteger_def)
  have h3: "\<forall>j. nat 0 \<le> j \<and> j < length (exercises exampleWorkout) \<longrightarrow>
      safeInteger (lineIndex (exercises exampleWorkout ! j))"
    using s0 s1 by (auto simp: exampleWorkout_def less_Suc_eq)
  note t = addSet_inserts_duplicate [OF h1 h2 h3]
  have ex: "exercises exampleWorkout = [squats, plank]" by (simp add: exampleWorkout_def)
  from t have a: "exercises (addSet exampleWorkout 0) ! (1 + 1)
      = (exercises exampleWorkout ! 1)\<lparr>lineIndex := lineIndex (exercises exampleWorkout ! 1) + 1\<rparr>"
    by (simp add: exampleWorkout_def)
  from t have b: "exercises (addSet exampleWorkout 0) ! 0 = exercises exampleWorkout ! 0"
    by blast
  from t have c: "length (exercises (addSet exampleWorkout 0)) = length (exercises exampleWorkout) + 1"
    by blast
  from t have d: "state (exercises (addSet exampleWorkout 0) ! (nat 0 + 1)) = pending \<and>
      lineIndex (exercises (addSet exampleWorkout 0) ! (nat 0 + 1)) = lineIndex (exercises exampleWorkout ! nat 0) + 1 \<and>
      map editable (params (exercises (addSet exampleWorkout 0) ! (nat 0 + 1)))
       = map (\<lambda>p. if toLowerCase (key p) = ''duration'' \<and> \<not> editable p
                   then targetDuration (exercises exampleWorkout ! nat 0) \<noteq> None else editable p)
           (params (exercises exampleWorkout ! nat 0))"
    by blast
  show ?thesis
    using h2 s0 s1 a b c d by (simp add: ex squats_def plank_def numeral_2_eq_2)
qed

section \<open>Adding a rest without a rest duration\<close>

text \<open>
  C8. If \<open>onExerciseAddRest\<close> is invoked while \<open>metadata.restDuration\<close> is unset, the
  workout in memory is unchanged (so no rest exercise is inserted) and no call is made on
  the file updater or the timer manager. The callback has already cleared
  \<open>hasPendingChanges\<close> by then, which is its only effect.
\<close>

theorem addRest_unset_is_noop:
  "restDuration (metadata (currentParsed s)) = None \<Longrightarrow>
     onExerciseAddRest X i ts s = s\<lparr>hasPendingChanges := False\<rparr> \<and>
     currentParsed (onExerciseAddRest X i ts s) = currentParsed s \<and>
     effects (onExerciseAddRest X i ts s) = effects s"
  by (simp add: onExerciseAddRest_def Let_def split: option.splits)

theorem addRest_unset_is_noop_witness:
  "restDuration (metadata (currentParsed (createCallbacks runWorkout))) = None \<and>
   currentParsed (onExerciseAddRest exampleExternals 0 None (createCallbacks runWorkout)) = runWorkout \<and>
   effects (onExerciseAddRest exampleExternals 0 None (createCallbacks runWorkout)) = []"
proof -
  have h: "restDuration (metadata (currentParsed (createCallbacks runWorkout))) = None"
    by (simp add: createCallbacks_def runWorkout_def)
  show ?thesis
    using h addRest_unset_is_noop [OF h, of exampleExternals 0 None]
    by (simp add: createCallbacks_def)
qed

section \<open>Parameter changes that change nothing\<close>

text \<open>
  C10, as stated, fails in its last part: a same-value change does not mark pending
  changes, but it does not clear them either. After an earlier change that is still
  pending (Reps from 10 to 12), a same-value change of Weight is followed by a write at
  the flush.
\<close>

theorem same_value_after_pending_counterexample:
  "map_option value (find (\<lambda>p. key p = ''Weight'')
      (params (exercises (currentParsed
         (onParamChange 0 ''Reps'' ''12'' (createCallbacks exampleWorkout))) ! 0))) = Some ''60'' \<and>
   effects (onParamChange 0 ''Weight'' ''60''
      (onParamChange 0 ''Reps'' ''12'' (createCallbacks exampleWorkout))) = [] \<and>
   length (effects (flushChanges exampleExternals
      (onParamChange 0 ''Weight'' ''60''
         (onParamChange 0 ''Reps'' ''12'' (createCallbacks exampleWorkout))))) = 1"
  by code_simp

text \<open>
  C10, amended. If \<open>onParamChange\<close> is invoked for a parameter that exists (the first
  parameter of exercise \<open>i\<close> with key \<open>k\<close>) with a new value equal to its current value,
  the closure is left as it was: the workout is not modified and \<open>hasPendingChanges\<close> is
  not set. A subsequent \<open>onFlushChanges\<close> therefore does what it would have done without
  the call: it writes nothing when no earlier change was pending, and writes the earlier
  change when one was.
\<close>

theorem onParamChange_same_value:
  "at_index (exercises (currentParsed s)) i = Some e \<Longrightarrow>
   find (\<lambda>p. key p = k) (params e) = Some p \<Longrightarrow> value p = v \<Longrightarrow>
     onParamChange i k v s = s \<and>
     flushChanges X (onParamChange i k v s) = flushChanges X s \<and>
     (\<not> hasPendingChanges s \<longrightarrow> effects (flushChanges X (onParamChange i k v s)) = effects s) \<and>
     (hasPendingChanges s \<longrightarrow>
        effects (flushChanges X (onParamChange i k v s))
          = effects s @ [UpdateCodeBlock (serializeWorkout X (currentParsed s))
                           (title (metadata (currentParsed s)))])"
  by (simp add: onParamChange_def flushChanges_def updateFile_def call_def)

theorem onParamChange_same_value_witness:
  "at_index (exercises (currentParsed (createCallbacks exampleWorkout))) 0 = Some squats \<and>
   find (\<lambda>p. key p = ''Reps'') (params squats)
     = Some \<lparr>key = ''Reps'', value = ''10'', editable = True, unit = None\<rparr> \<and>
   \<not> hasPendingChanges (createCallbacks exampleWorkout) \<and>
   onParamChange 0 ''Reps'' ''10'' (createCallbacks exampleWorkout) = createCallbacks exampleWorkout \<and>
   effects (flushChanges exampleExternals
     (onParamChange 0 ''Reps'' ''10'' (createCallbacks exampleWorkout))) = [] \<and>
   hasPendingChanges (onParamChange 0 ''Reps'' ''12'' (createCallbacks exampleWorkout)) \<and>
   effects (flushChanges exampleExternals
     (onParamChange 0 ''Weight'' ''60''
        (onParamChange 0 ''Reps'' ''12'' (createCallbacks exampleWorkout))))
     = [UpdateCodeBlock
          (serializeWorkout exampleExternals
             (currentParsed (onParamChange 0 ''Reps'' ''12'' (createCallbacks exampleWorkout))))
          (Some ''Morning Workout'')]"
proof -
  let ?s = "onParamChange 0 ''Reps'' ''12'' (createCallbacks exampleWorkout)"
  have h1: "at_index (exercises (currentParsed (createCallbacks exampleWorkout))) 0 = Some squats"
    by (simp add: createCallbacks_def exampleWorkout_def at_index_def)
  have h2: "find (\<lambda>p. key p = ''Reps'') (params squats)
      = Some \<lparr>key = ''Reps'', value = ''10'', editable = True, unit = None\<rparr>"
    by (simp add: squats_def)
  have h3: "value \<lparr>key = ''Reps'', value = ''10'', editable = True, unit = None\<rparr> = ''10''"
    by simp
  have h4: "\<not> hasPendingChanges (createCallbacks exampleWorkout)"
    by (simp add: createCallbacks_def)
  have g1: "at_index (exercises (currentParsed ?s)) 0 = Some (exercises (currentParsed ?s) ! 0)"
    by code_simp
  have g2: "find (\<lambda>p. key p = ''Weight'') (params (exercises (currentParsed ?s) ! 0))
      = Some \<lparr>key = ''Weight'', value = ''60'', editable = True, unit = Some ''kg''\<rparr>"
    by code_simp
  have g3: "value \<lparr>key = ''Weight'', value = ''60'', editable = True, unit = Some ''kg''\<rparr> = ''60''"
    by simp
  have g4: "hasPendingChanges ?s" by code_simp
  have g5: "effects ?s = []" by code_simp
  have g6: "title (metadata (currentParsed ?s)) = Some ''Morning Workout''" by code_simp
  have h5: "effects (createCallbacks exampleWorkout) = []"
    by (simp add: createCallbacks_def)
  note t1 = onParamChange_same_value [OF h1 h2 h3, of exampleExternals]
  note t2 = onParamChange_same_value [OF g1 g2 g3, of exampleExternals]
  from t1 have a1: "onParamChange 0 ''Reps'' ''10'' (createCallbacks exampleWorkout)
      = createCallbacks exampleWorkout"
    by (rule conjunct1)
  from t1 h4 have a2: "effects (flushChanges exampleExternals
      (onParamChange 0 ''Reps'' ''10'' (createCallbacks exampleWorkout)))
      = effects (createCallbacks exampleWorkout)"
    by blast
  from t2 g4 have a3: "effects (flushChanges exampleExternals (onParamChange 0 ''Weight'' ''60'' ?s))
      = effects ?s @ [UpdateCodeBlock (serializeWorkout exampleExternals (currentParsed ?s))
                        (title (metadata (currentParsed ?s)))]"
    by blast
  have a4: "effects (flushChanges exampleExternals (onParamChange 0 ''Weight'' ''60'' ?s))
      = [UpdateCodeBlock (serializeWorkout exampleExternals (currentParsed ?s))
           (Some ''Morning Workout'')]"
    unfolding a3 g5 g6 by (rule append_Nil)
  have a5: "effects (flushChanges exampleExternals
      (onParamChange 0 ''Reps'' ''10'' (createCallbacks exampleWorkout))) = []"
    unfolding a2 by (rule h5)
  show ?thesis
    by (intro conjI h1 h2 h4 a1 a5 g4 a4)
qed

section \<open>findIndex\<close>

lemma findIndexFrom_map: "findIndexFrom (\<lambda>e. P (f e)) k xs = findIndexFrom P k (map f xs)"
  by (induction xs arbitrary: k) auto

lemma findIndexFrom_none:
  "(\<forall>j<length xs. \<not> P (xs ! j) (k + int j)) \<Longrightarrow> findIndexFrom P k xs = - 1"
proof (induction xs arbitrary: k)
  case Nil
  then show ?case by simp
next
  case (Cons x xs)
  have "\<not> P x k" using Cons.prems [rule_format, of 0] by simp
  moreover have "\<forall>j<length xs. \<not> P (xs ! j) (k + 1 + int j)"
  proof (intro allI impI)
    fix j assume "j < length xs"
    then show "\<not> P (xs ! j) (k + 1 + int j)"
      using Cons.prems [rule_format, of "Suc j"] by (simp add: add.assoc)
  qed
  ultimately show ?case using Cons.IH [of "k + 1"] by simp
qed

lemma findIndexFrom_found:
  "j < length xs \<Longrightarrow> P (xs ! j) (k + int j) \<Longrightarrow> (\<forall>j'<j. \<not> P (xs ! j') (k + int j'))
     \<Longrightarrow> findIndexFrom P k xs = k + int j"
proof (induction xs arbitrary: k j)
  case Nil
  then show ?case by simp
next
  case (Cons x xs)
  show ?case
  proof (cases j)
    case 0
    then show ?thesis using Cons.prems by simp
  next
    case (Suc m)
    have nx: "\<not> P x k" using Cons.prems(3) [rule_format, of 0] Suc by simp
    have "\<forall>j'<m. \<not> P (xs ! j') (k + 1 + int j')"
    proof (intro allI impI)
      fix j' assume "j' < m"
      then show "\<not> P (xs ! j') (k + 1 + int j')"
        using Cons.prems(3) [rule_format, of "Suc j'"] Suc by (simp add: add.assoc)
    qed
    then have "findIndexFrom P (k + 1) xs = k + 1 + int m"
      using Cons.IH [of m "k + 1"] Cons.prems(1,2) Suc by (simp add: add.assoc)
    then show ?thesis using nx Suc by simp
  qed
qed

lemma findIndexFrom_range:
  "findIndexFrom P k xs = - 1 \<and> (\<forall>j<length xs. \<not> P (xs ! j) (k + int j)) \<or>
   (\<exists>j<length xs. findIndexFrom P k xs = k + int j \<and> P (xs ! j) (k + int j)
       \<and> (\<forall>j'<j. \<not> P (xs ! j') (k + int j')))"
proof (cases "\<exists>j<length xs. P (xs ! j) (k + int j)")
  case False
  then show ?thesis using findIndexFrom_none [of xs P k] by blast
next
  case True
  define m where "m = (LEAST j. j < length xs \<and> P (xs ! j) (k + int j))"
  have m: "m < length xs \<and> P (xs ! m) (k + int m)"
    unfolding m_def using True by (metis (mono_tags, lifting) LeastI_ex)
  have least: "\<forall>j'<m. \<not> P (xs ! j') (k + int j')"
  proof (intro allI impI notI)
    fix j' assume a: "j' < m" "P (xs ! j') (k + int j')"
    then have "j' < length xs" using m by simp
    then have "m \<le> j'" unfolding m_def using a(2) by (simp add: Least_le)
    then show False using a(1) by simp
  qed
  have "findIndexFrom P k xs = k + int m"
    using findIndexFrom_found [of m xs P k] m least by blast
  then show ?thesis using m least by blast
qed

lemma findIndex_nonneg:
  assumes "0 \<le> findIndex P xs"
  shows "nat (findIndex P xs) < length xs \<and> P (xs ! nat (findIndex P xs)) (findIndex P xs)"
  using findIndexFrom_range [of P 0 xs] assms by (auto simp: findIndex_def)

lemma findIndex_negative:
  assumes "\<not> 0 \<le> findIndex P xs"
  shows "\<forall>j<length xs. \<not> P (xs ! j) (int j)"
  using findIndexFrom_range [of P 0 xs] assms by (auto simp: findIndex_def)

lemma findIndex_first:
  "j < length xs \<Longrightarrow> P (xs ! j) (int j) \<Longrightarrow> (\<forall>j'<j. \<not> P (xs ! j') (int j'))
     \<Longrightarrow> findIndex P xs = int j"
  using findIndexFrom_found [of j xs P 0] by (simp add: findIndex_def)

lemma nextPendingAfter_states:
  "nextPendingAfter i p = findIndex (\<lambda>s j. j > i \<and> s = pending) (exerciseStates p)"
  using findIndexFrom_map [of "\<lambda>s j. j > i \<and> s = pending" state 0 "exercises p"]
  by (simp add: nextPendingAfter_def findIndex_def exerciseStates_def)

section \<open>Exercise states under the mutation engine\<close>

lemma states_updateExerciseState:
  "exerciseStates (updateExerciseState p i s)
     = (if 0 \<le> i \<and> i < int (length (exercises p)) then (exerciseStates p)[nat i := s]
        else exerciseStates p)"
  by (simp add: updateExerciseState_def at_index_def exerciseStates_def map_update)

lemma map_update_same: "(map f xs)[n := f (xs ! n)] = map f xs"
  by (metis list_update_id map_update)

lemma states_setRecordedDuration:
  "exerciseStates (setRecordedDuration p i d) = exerciseStates p"
  by (simp add: setRecordedDuration_def at_index_def exerciseStates_def map_update
      map_update_same)

lemma states_recordElapsed: "exerciseStates (recordElapsed X t i p) = exerciseStates p"
  by (simp add: recordElapsed_def states_setRecordedDuration split: option.splits)

lemma states_lockAllFields: "exerciseStates (lockAllFields p) = exerciseStates p"
  by (simp add: lockAllFields_def exerciseStates_def comp_def)

lemma states_setMetadata:
  "exerciseStates (setMetadataState st p) = exerciseStates p"
  "exerciseStates (setMetadataDuration X t p) = exerciseStates p"
  by (simp_all add: setMetadataState_def setMetadataDuration_def exerciseStates_def split: option.splits)

lemma states_insert:
  assumes "0 \<le> i" "i < int (length (exercises p))" "state e = pending"
  shows "exerciseStates (p\<lparr>exercises := bumpLineIndices (nat i + 2)
            (splice_insert (nat i + 1) e (exercises p))\<rparr>)
     = take (nat i + 1) (exerciseStates p) @ [pending] @ drop (nat i + 1) (exerciseStates p)"
  using assms
  by (simp add: exerciseStates_def bumpLineIndices_eq splice_insert_def take_map drop_map comp_def)

lemma states_addSet:
  "exerciseStates (addSet p i)
     = (if 0 \<le> i \<and> i < int (length (exercises p))
        then take (nat i + 1) (exerciseStates p) @ [pending] @ drop (nat i + 1) (exerciseStates p)
        else exerciseStates p)"
proof (cases "0 \<le> i \<and> i < int (length (exercises p))")
  case True
  then show ?thesis
    using states_insert [of i p "newSet (exercises p ! nat i)"]
    by (simp add: addSet_def at_index_def newSet_def)
next
  case False
  then show ?thesis by (auto simp: addSet_def at_index_def)
qed

lemma states_addRest:
  "exerciseStates (addRest X p i r)
     = (if 0 \<le> i \<and> i < int (length (exercises p))
        then take (nat i + 1) (exerciseStates p) @ [pending] @ drop (nat i + 1) (exerciseStates p)
        else exerciseStates p)"
proof (cases "0 \<le> i \<and> i < int (length (exercises p))")
  case True
  then show ?thesis
    using states_insert [of i p "restExercise X (exercises p ! nat i) r"]
    by (simp add: addRest_def at_index_def restExercise_def)
next
  case False
  then show ?thesis by (auto simp: addRest_def at_index_def)
qed

lemma metadata_mutations:
  "metadata (updateExerciseState p i s) = metadata p"
  "metadata (setRecordedDuration p i d) = metadata p"
  "metadata (recordElapsed X t i p) = metadata p"
  "metadata (lockAllFields p) = metadata p"
  "metadata (addSet p i) = metadata p"
  "metadata (addRest X p i r) = metadata p"
  "metadata (updateParamValue p i k v) = metadata p"
  by (simp_all add: updateExerciseState_def setRecordedDuration_def recordElapsed_def
      lockAllFields_def addSet_def addRest_def updateParamValue_def split: option.splits)

lemma length_states: "length (exerciseStates p) = length (exercises p)"
  by (simp add: exerciseStates_def)

lemma activeCount_states:
  "activeCount p = length (filter (\<lambda>s. s = inProgress) (exerciseStates p))"
  by (simp add: activeCount_def exerciseStates_def filter_map comp_def)

lemma isActive_states:
  "isActive p i \<longleftrightarrow> 0 \<le> i \<and> i < int (length (exerciseStates p)) \<and> exerciseStates p ! nat i = inProgress"
  by (auto simp: isActive_def at_index_def exerciseStates_def split: option.splits)

text \<open>Lists of states with at most one active entry.\<close>

lemma no_active_update:
  "length (filter (\<lambda>s. s = inProgress) sts) \<le> 1 \<Longrightarrow> n < length sts \<Longrightarrow> sts ! n = inProgress \<Longrightarrow>
   s \<noteq> inProgress \<Longrightarrow> filter (\<lambda>s. s = inProgress) (sts[n := s]) = []"
proof (induction sts arbitrary: n)
  case Nil
  then show ?case by simp
next
  case (Cons a sts)
  show ?case
  proof (cases n)
    case 0
    then show ?thesis using Cons.prems by (auto simp: filter_empty_conv)
  next
    case (Suc m)
    have "sts ! m \<in> set sts" using Cons.prems(2) Suc by simp
    then have "filter (\<lambda>s. s = inProgress) sts \<noteq> []"
      using Cons.prems(3) Suc by (auto simp: filter_empty_conv)
    then have "length (filter (\<lambda>s. s = inProgress) sts) \<ge> 1"
      by (cases "filter (\<lambda>s. s = inProgress) sts") auto
    then have "a \<noteq> inProgress" using Cons.prems(1) by (auto split: if_splits)
    then show ?thesis using Cons.IH [of m] Cons.prems Suc by (auto split: if_splits)
  qed
qed

lemma one_active_update:
  "filter (\<lambda>s. s = inProgress) sts = [] \<Longrightarrow>
     length (filter (\<lambda>s. s = inProgress) (sts[n := inProgress])) \<le> 1"
proof (induction sts arbitrary: n)
  case Nil
  then show ?case by simp
next
  case (Cons a sts)
  then show ?case by (cases n) (auto split: if_splits)
qed

lemma no_active_insert:
  "filter (\<lambda>s. s = inProgress) sts = [] \<Longrightarrow>
     filter (\<lambda>s. s = inProgress) (take k sts @ [pending] @ drop k sts) = []"
  by (auto simp: filter_empty_conv dest: in_set_takeD in_set_dropD)

section \<open>Finishing and skipping an exercise\<close>

lemma state_nth: "k < length (exercises p) \<Longrightarrow> exerciseStates p ! k = state (exercises p ! k)"
  by (simp add: exerciseStates_def)

lemma nextPending_first:
  assumes upd: "exerciseStates p2 = (exerciseStates p)[nat i := c]"
    and i: "0 \<le> i" and k: "i < int k" "k < length (exercises p)"
    and pend: "state (exercises p ! k) = pending"
    and first: "\<forall>j. i < int j \<and> j < k \<longrightarrow> state (exercises p ! j) \<noteq> pending"
  shows "nextPendingAfter i p2 = int k"
proof -
  let ?sts = "(exerciseStates p)[nat i := c]"
  have same: "?sts ! j = state (exercises p ! j)" if "i < int j" "j < length (exercises p)" for j
  proof -
    have "j \<noteq> nat i" using that i by linarith
    then show ?thesis using that by (simp add: state_nth)
  qed
  have a: "k < length ?sts" using k by (simp add: length_states)
  have b: "int k > i \<and> ?sts ! k = pending" using same [of k] k pend by simp
  have c: "\<forall>j'<k. \<not> (int j' > i \<and> ?sts ! j' = pending)"
  proof (intro allI impI notI)
    fix j' assume j: "j' < k" and h: "int j' > i \<and> ?sts ! j' = pending"
    have "j' < length (exercises p)" using j k by simp
    then have "state (exercises p ! j') = pending" using same [of j'] h by simp
    then show False using first j h by blast
  qed
  show ?thesis
    unfolding nextPendingAfter_states upd
    using findIndex_first [of k ?sts "\<lambda>s j. j > i \<and> s = pending"] a b c by blast
qed

lemma nextPending_none:
  assumes upd: "exerciseStates p2 = (exerciseStates p)[nat i := c]"
    and i: "0 \<le> i"
    and none: "\<forall>j. i < int j \<and> j < length (exercises p) \<longrightarrow> state (exercises p ! j) \<noteq> pending"
  shows "\<not> 0 \<le> nextPendingAfter i p2"
proof -
  let ?sts = "(exerciseStates p)[nat i := c]"
  have "\<forall>j<length ?sts. \<not> (0 + int j > i \<and> ?sts ! j = pending)"
  proof (intro allI impI notI)
    fix j assume j: "j < length ?sts" and h: "0 + int j > i \<and> ?sts ! j = pending"
    have jl: "j < length (exercises p)" using j by (simp add: length_states)
    have "j \<noteq> nat i" using h i by linarith
    then have "state (exercises p ! j) = pending" using h jl by (simp add: state_nth)
    then show False using none jl h by auto
  qed
  then have "findIndexFrom (\<lambda>s j. j > i \<and> s = pending) 0 ?sts = - 1"
    by (rule findIndexFrom_none)
  then show ?thesis
    unfolding nextPendingAfter_states upd by (simp add: findIndex_def)
qed

lemma lockAllFields_locked:
  "\<forall>e \<in> set (exercises (lockAllFields p)). \<forall>q \<in> set (params e). \<not> editable q"
  by (auto simp: lockAllFields_def)

lemma completion_metadata:
  "wstate (metadata (lockAllFields (setMetadataDuration X f (setMetadataState wCompleted p)))) = wCompleted"
  "duration (metadata (lockAllFields (setMetadataDuration X f (setMetadataState wCompleted p))))
     = (case f of None \<Rightarrow> duration (metadata p)
        | Some fs \<Rightarrow> Some (formatDurationHuman X (workoutElapsed fs)))"
  by (simp_all add: metadata_mutations setMetadataDuration_def setMetadataState_def split: option.splits)

text \<open>The two branches of \<open>onExerciseFinish\<close> and \<open>onExerciseSkip\<close>.\<close>

lemma onExerciseFinish_advance:
  assumes "0 \<le> i" "i < int (length (exercises (currentParsed s)))"
    and "p2 = updateExerciseState (recordElapsed X t i (currentParsed s)) i completed"
    and "0 \<le> nextPendingAfter i p2"
  shows "onExerciseFinish X i t f s =
     \<lparr>currentParsed = updateExerciseState p2 (nextPendingAfter i p2) inProgress,
      hasPendingChanges = False,
      effects = effects s @ [AdvanceExercise (nextPendingAfter i p2),
        UpdateCodeBlock (serializeWorkout X (updateExerciseState p2 (nextPendingAfter i p2) inProgress))
          (title (metadata (currentParsed s)))]\<rparr>"
  using assms
  by (simp add: onExerciseFinish_def Let_def at_index_def updateFile_def call_def metadata_mutations)

lemma onExerciseFinish_complete:
  assumes "0 \<le> i" "i < int (length (exercises (currentParsed s)))"
    and "p2 = updateExerciseState (recordElapsed X t i (currentParsed s)) i completed"
    and "\<not> 0 \<le> nextPendingAfter i p2"
  shows "onExerciseFinish X i t f s =
     \<lparr>currentParsed = lockAllFields (setMetadataDuration X f (setMetadataState wCompleted p2)),
      hasPendingChanges = False,
      effects = effects s @ [
        UpdateCodeBlock (serializeWorkout X (lockAllFields (setMetadataDuration X f (setMetadataState wCompleted p2))))
          (title (metadata (currentParsed s))), StopWorkoutTimer]\<rparr>"
  using assms
  by (simp add: onExerciseFinish_def Let_def at_index_def updateFile_def call_def metadata_mutations
      setMetadataDuration_def setMetadataState_def split: option.splits)

lemma onExerciseSkip_advance:
  assumes "p2 = updateExerciseState (recordElapsed X (elapsedPositive t) i (currentParsed s)) i skipped"
    and "0 \<le> nextPendingAfter i p2"
  shows "onExerciseSkip X i t f s =
     \<lparr>currentParsed = updateExerciseState p2 (nextPendingAfter i p2) inProgress,
      hasPendingChanges = False,
      effects = effects s @ [AdvanceExercise (nextPendingAfter i p2),
        UpdateCodeBlock (serializeWorkout X (updateExerciseState p2 (nextPendingAfter i p2) inProgress))
          (title (metadata (currentParsed s)))]\<rparr>"
  using assms
  by (simp add: onExerciseSkip_def Let_def updateFile_def call_def metadata_mutations)

lemma onExerciseSkip_complete:
  assumes "p2 = updateExerciseState (recordElapsed X (elapsedPositive t) i (currentParsed s)) i skipped"
    and "\<not> 0 \<le> nextPendingAfter i p2"
  shows "onExerciseSkip X i t f s =
     \<lparr>currentParsed = lockAllFields (setMetadataDuration X f (setMetadataState wCompleted p2)),
      hasPendingChanges = False,
      effects = effects s @ [StopWorkoutTimer,
        UpdateCodeBlock (serializeWorkout X (lockAllFields (setMetadataDuration X f (setMetadataState wCompleted p2))))
          (title (metadata (currentParsed s)))]\<rparr>"
  using assms
  by (simp add: onExerciseSkip_def Let_def updateFile_def call_def metadata_mutations
      setMetadataDuration_def setMetadataState_def split: option.splits)

lemma length_updateExerciseState [simp]:
  "length (exercises (updateExerciseState p i c)) = length (exercises p)"
  by (simp add: updateExerciseState_def split: option.splits)

lemma length_recordElapsed [simp]:
  "length (exercises (recordElapsed X t i p)) = length (exercises p)"
  by (simp add: recordElapsed_def setRecordedDuration_def split: option.splits)

lemma states_after_mark:
  assumes "0 \<le> i" "i < int (length (exercises p))"
  shows "exerciseStates (updateExerciseState (recordElapsed X t i p) i c) = (exerciseStates p)[nat i := c]"
  using assms by (simp add: states_updateExerciseState states_recordElapsed)

text \<open>
  C6, as stated, fails in one point: the metadata duration is written only under the
  guard \<open>if (finalState)\<close>. When the timer manager has no timer for the workout (the file
  says \<open>started\<close> but no timer runs, as after a reload), finishing the last exercise
  completes the workout and leaves \<open>duration\<close> unset.
\<close>

theorem finish_duration_unset_counterexample:
  "at_index (exercises runWorkout) 0 \<noteq> None \<and>
   nextPendingAfter 0 runWorkout = - 1 \<and>
   wstate (metadata (currentParsed
     (onExerciseFinish exampleExternals 0 None None (createCallbacks runWorkout)))) = wCompleted \<and>
   duration (metadata (currentParsed
     (onExerciseFinish exampleExternals 0 None None (createCallbacks runWorkout)))) = None"
  by (simp add: onExerciseFinish_def createCallbacks_def runWorkout_def at_index_def Let_def
      recordElapsed_def updateExerciseState_def nextPendingAfter_def findIndex_def
      setMetadataState_def setMetadataDuration_def lockAllFields_def updateFile_def call_def)

text \<open>
  C6, amended. Whenever the exercise at an in-range index \<open>i\<close> is finished or skipped via
  \<open>onExerciseFinish\<close> or \<open>onExerciseSkip\<close>: if some exercise after \<open>i\<close> has state
  \<open>pending\<close>, the first such exercise (lowest index greater than \<open>i\<close>) becomes
  \<open>inProgress\<close>; if no exercise after \<open>i\<close> is pending, the workout metadata state becomes
  \<open>completed\<close>, every parameter of every exercise has \<open>editable = false\<close>, and the metadata
  duration is set to the formatted elapsed workout time when the timer manager reports a
  timer state for the workout; without one the duration keeps its previous value.
\<close>

theorem finish_or_skip_advances_or_completes:
  assumes "0 \<le> i" and "i < int (length (exercises (currentParsed s)))"
  shows "(\<forall>k. i < int k \<and> k < length (exercises (currentParsed s)) \<and>
            state (exercises (currentParsed s) ! k) = pending \<and>
            (\<forall>j. i < int j \<and> j < k \<longrightarrow> state (exercises (currentParsed s) ! j) \<noteq> pending) \<longrightarrow>
          state (exercises (currentParsed (onExerciseFinish X i t f s)) ! k) = inProgress \<and>
          state (exercises (currentParsed (onExerciseSkip X i t f s)) ! k) = inProgress) \<and>
     ((\<forall>j. i < int j \<and> j < length (exercises (currentParsed s)) \<longrightarrow>
            state (exercises (currentParsed s) ! j) \<noteq> pending) \<longrightarrow>
        (\<forall>r \<in> {onExerciseFinish X i t f s, onExerciseSkip X i t f s}.
          wstate (metadata (currentParsed r)) = wCompleted \<and>
          duration (metadata (currentParsed r))
            = (case f of None \<Rightarrow> duration (metadata (currentParsed s))
               | Some fs \<Rightarrow> Some (formatDurationHuman X (workoutElapsed fs))) \<and>
          (\<forall>e \<in> set (exercises (currentParsed r)). \<forall>q \<in> set (params e). \<not> editable q)))"
proof -
  let ?p = "currentParsed s"
  define pf where "pf = updateExerciseState (recordElapsed X t i ?p) i completed"
  define ps where "ps = updateExerciseState (recordElapsed X (elapsedPositive t) i ?p) i skipped"
  have sf: "exerciseStates pf = (exerciseStates ?p)[nat i := completed]"
    unfolding pf_def using assms by (rule states_after_mark)
  have ss: "exerciseStates ps = (exerciseStates ?p)[nat i := skipped]"
    unfolding ps_def using assms by (rule states_after_mark)
  have mf: "metadata pf = metadata ?p" "metadata ps = metadata ?p"
    by (simp_all add: pf_def ps_def metadata_mutations)
  have lf: "length (exercises pf) = length (exercises ?p)" "length (exercises ps) = length (exercises ?p)"
    by (simp_all add: pf_def ps_def)
  have activated: "state (exercises (updateExerciseState q (int k) inProgress) ! k) = inProgress"
    if "k < length (exercises q)" for q k
    using that by (simp add: updateExerciseState_def at_index_def)
  have adv: "state (exercises (currentParsed (onExerciseFinish X i t f s)) ! k) = inProgress \<and>
             state (exercises (currentParsed (onExerciseSkip X i t f s)) ! k) = inProgress"
    if k: "i < int k" "k < length (exercises ?p)" "state (exercises ?p ! k) = pending"
      "\<forall>j. i < int j \<and> j < k \<longrightarrow> state (exercises ?p ! j) \<noteq> pending" for k
  proof -
    have nf: "nextPendingAfter i pf = int k"
      using nextPending_first [OF sf assms(1) k] .
    have ns: "nextPendingAfter i ps = int k"
      using nextPending_first [OF ss assms(1) k] .
    have "onExerciseFinish X i t f s = \<lparr>currentParsed = updateExerciseState pf (int k) inProgress,
        hasPendingChanges = False,
        effects = effects s @ [AdvanceExercise (int k),
          UpdateCodeBlock (serializeWorkout X (updateExerciseState pf (int k) inProgress))
            (title (metadata ?p))]\<rparr>"
      using onExerciseFinish_advance [OF assms pf_def, of f] nf by simp
    moreover have "onExerciseSkip X i t f s = \<lparr>currentParsed = updateExerciseState ps (int k) inProgress,
        hasPendingChanges = False,
        effects = effects s @ [AdvanceExercise (int k),
          UpdateCodeBlock (serializeWorkout X (updateExerciseState ps (int k) inProgress))
            (title (metadata ?p))]\<rparr>"
      using onExerciseSkip_advance [OF ps_def, of f] ns by simp
    ultimately show ?thesis using activated [of k pf] activated [of k ps] k(2) lf by simp
  qed
  have fin: "wstate (metadata (currentParsed r)) = wCompleted \<and>
          duration (metadata (currentParsed r))
            = (case f of None \<Rightarrow> duration (metadata ?p)
               | Some fs \<Rightarrow> Some (formatDurationHuman X (workoutElapsed fs))) \<and>
          (\<forall>e \<in> set (exercises (currentParsed r)). \<forall>q \<in> set (params e). \<not> editable q)"
    if none: "\<forall>j. i < int j \<and> j < length (exercises ?p) \<longrightarrow> state (exercises ?p ! j) \<noteq> pending"
      and r: "r = onExerciseFinish X i t f s \<or> r = onExerciseSkip X i t f s" for r
  proof -
    have nf: "\<not> 0 \<le> nextPendingAfter i pf" using nextPending_none [OF sf assms(1) none] .
    have ns: "\<not> 0 \<le> nextPendingAfter i ps" using nextPending_none [OF ss assms(1) none] .
    have "currentParsed r = lockAllFields (setMetadataDuration X f (setMetadataState wCompleted pf))
        \<or> currentParsed r = lockAllFields (setMetadataDuration X f (setMetadataState wCompleted ps))"
      using r onExerciseFinish_complete [OF assms pf_def nf, of f]
        onExerciseSkip_complete [OF ps_def ns, of f] by auto
    then show ?thesis
      using completion_metadata [of X f pf] completion_metadata [of X f ps] mf
        lockAllFields_locked by (auto split: option.splits)
  qed
  show ?thesis using adv fin by blast
qed

theorem finish_or_skip_advances_or_completes_witness:
  "(0::int) \<le> 0 \<and> 0 < int (length (exercises (currentParsed (createCallbacks activeWorkout)))) \<and>
   state (exercises (currentParsed (createCallbacks activeWorkout)) ! 1) = pending \<and>
   state (exercises (currentParsed
     (onExerciseFinish exampleExternals 0 None None (createCallbacks activeWorkout))) ! 1) = inProgress \<and>
   state (exercises (currentParsed
     (onExerciseSkip exampleExternals 0 None None (createCallbacks activeWorkout))) ! 1) = inProgress \<and>
   0 < int (length (exercises (currentParsed (createCallbacks runWorkout)))) \<and>
   wstate (metadata (currentParsed (onExerciseFinish exampleExternals 0 None
     (Some exampleTimerState) (createCallbacks runWorkout)))) = wCompleted \<and>
   duration (metadata (currentParsed (onExerciseFinish exampleExternals 0 None
     (Some exampleTimerState) (createCallbacks runWorkout)))) = Some ''42s''"
proof -
  let ?a = "createCallbacks activeWorkout" and ?r = "createCallbacks runWorkout"
  have h0: "(0::int) \<le> 0" by simp
  have ha: "0 < int (length (exercises (currentParsed ?a)))"
    by (simp add: createCallbacks_def activeWorkout_def)
  have hr: "0 < int (length (exercises (currentParsed ?r)))"
    by (simp add: createCallbacks_def runWorkout_def)
  have pa: "0 < int 1 \<and> 1 < length (exercises (currentParsed ?a)) \<and>
      state (exercises (currentParsed ?a) ! 1) = pending \<and>
      (\<forall>j. 0 < int j \<and> j < 1 \<longrightarrow> state (exercises (currentParsed ?a) ! j) \<noteq> pending)"
    by (simp add: createCallbacks_def activeWorkout_def plank_def)
  have pr: "\<forall>j. 0 < int j \<and> j < length (exercises (currentParsed ?r)) \<longrightarrow>
      state (exercises (currentParsed ?r) ! j) \<noteq> pending"
    by (simp add: createCallbacks_def runWorkout_def)
  have a: "state (exercises (currentParsed (onExerciseFinish exampleExternals 0 None None ?a)) ! 1) = inProgress \<and>
      state (exercises (currentParsed (onExerciseSkip exampleExternals 0 None None ?a)) ! 1) = inProgress"
    using finish_or_skip_advances_or_completes [OF h0 ha, of exampleExternals None None] pa by blast
  have b: "wstate (metadata (currentParsed (onExerciseFinish exampleExternals 0 None
        (Some exampleTimerState) ?r))) = wCompleted \<and>
      duration (metadata (currentParsed (onExerciseFinish exampleExternals 0 None
        (Some exampleTimerState) ?r)))
        = Some (formatDurationHuman exampleExternals (workoutElapsed exampleTimerState))"
    using finish_or_skip_advances_or_completes [OF h0 hr, of exampleExternals None "Some exampleTimerState"] pr
    by simp
  show ?thesis
    using h0 ha hr pa a b by (simp add: exampleExternals_def exampleTimerState_def)
qed

section \<open>Advancing the timer before writing\<close>

lemma length_addSet:
  "0 \<le> i \<Longrightarrow> i < int (length (exercises p)) \<Longrightarrow> length (exercises (addSet p i)) = length (exercises p) + 1"
  using length_states [of "addSet p i"] length_states [of p] by (simp add: states_addSet)

lemma length_addRest:
  "0 \<le> i \<Longrightarrow> i < int (length (exercises p)) \<Longrightarrow> length (exercises (addRest X p i r)) = length (exercises p) + 1"
  using length_states [of "addRest X p i r"] length_states [of p] by (simp add: states_addRest)

lemma isActive_activated:
  "0 \<le> k \<Longrightarrow> k < int (length (exercises q)) \<Longrightarrow> isActive (updateExerciseState q k inProgress) k"
  by (simp add: isActive_states states_updateExerciseState length_states)

lemma onExerciseAddSet_in_range:
  assumes "0 \<le> i" "i < int (length (exercises (currentParsed s)))"
    and "p4 = updateExerciseState (addSet (updateExerciseState
               (recordElapsed X t i (currentParsed s)) i completed) i) (i + 1) inProgress"
  shows "onExerciseAddSet X i t s =
     \<lparr>currentParsed = p4, hasPendingChanges = False,
      effects = effects s @ [AdvanceExercise (i + 1),
        UpdateCodeBlock (serializeWorkout X p4) (title (metadata p4))]\<rparr>"
  using assms
  by (simp add: onExerciseAddSet_def Let_def at_index_def updateFile_def call_def)

lemma onExerciseAddRest_in_range:
  assumes "0 \<le> i" "i < int (length (exercises (currentParsed s)))"
    and "restDuration (metadata (currentParsed s)) = Some r" "r \<noteq> 0"
    and "p4 = updateExerciseState (addRest X (updateExerciseState
               (recordElapsed X t i (currentParsed s)) i completed) i r) (i + 1) inProgress"
  shows "onExerciseAddRest X i t s =
     \<lparr>currentParsed = p4, hasPendingChanges = False,
      effects = effects s @ [AdvanceExercise (i + 1),
        UpdateCodeBlock (serializeWorkout X p4) (title (metadata p4))]\<rparr>"
  using assms
  by (simp add: onExerciseAddRest_def Let_def at_index_def updateFile_def call_def)

lemma nextPending_exists:
  assumes upd: "exerciseStates p2 = (exerciseStates p)[nat i := c]"
    and i: "0 \<le> i"
    and ex: "\<exists>j. i < int j \<and> j < length (exercises p) \<and> state (exercises p ! j) = pending"
  shows "0 \<le> nextPendingAfter i p2 \<and> nextPendingAfter i p2 < int (length (exercises p))"
proof -
  from ex obtain j where j: "i < int j" "j < length (exercises p)" "state (exercises p ! j) = pending"
    by blast
  define k where "k = (LEAST j. i < int j \<and> j < length (exercises p) \<and> state (exercises p ! j) = pending)"
  have k: "i < int k \<and> k < length (exercises p) \<and> state (exercises p ! k) = pending"
    unfolding k_def by (rule LeastI [of _ j]) (use j in simp)
  have first: "\<forall>j'. i < int j' \<and> j' < k \<longrightarrow> state (exercises p ! j') \<noteq> pending"
  proof (intro allI impI notI)
    fix j' assume a: "i < int j' \<and> j' < k" and b: "state (exercises p ! j') = pending"
    have "j' < length (exercises p)" using a k by simp
    then have "k \<le> j'" unfolding k_def using a b by (intro Least_le) simp
    then show False using a by simp
  qed
  have "nextPendingAfter i p2 = int k"
    using nextPending_first [OF upd i _ _ _ first] k by blast
  then show ?thesis using k by simp
qed

text \<open>
  A callback that logs \<open>advanceExercise\<close> and then the write leaves a reset timer for
  whoever queries it once the write is issued; with the two calls the other way round
  the timer at the write would still be the previous exercise's.
\<close>

lemma advance_then_write_fresh:
  assumes "effects r = effects s @ [AdvanceExercise k, UpdateCodeBlock c ttl]"
  shows "readsFreshTimer s r"
  unfolding readsFreshTimer_def assms
  by (simp add: timerAtWrite_def timerCall_def advanceExercise_def getTimerState_def Let_def)

lemma write_then_advance_stale:
  assumes "effects r = effects s @ [UpdateCodeBlock c ttl, AdvanceExercise k]"
  shows "\<not> readsFreshTimer s r"
proof
  assume "readsFreshTimer s r"
  then have "map_option exerciseElapsed
          (getTimerState 5 None
             (timerAtWrite 5 (drop (length (effects s)) (effects r))
                (Some \<lparr>workoutStartTime = 0, exerciseStartTime = 0, exercisePausedTime = 0,
                       isPaused = False, pauseStartTime = 0, activeExerciseIndex = 0\<rparr>)))
        = Some (5 - 5)"
    unfolding readsFreshTimer_def by blast
  then show False
    unfolding assms by (simp add: timerAtWrite_def getTimerState_def Let_def)
qed

text \<open>
  C9. For every exercise advance (finishing or skipping the exercise at an in-range index
  \<open>i\<close> while a pending exercise follows, adding a set, or adding a rest with a rest
  duration set), the calls the callback makes on its collaborators are exactly
  \<open>advanceExercise\<close> for the new active index followed by the write of the serialized
  new workout: the timer is advanced strictly before the text is written. So a query of
  the timer state made once the write is issued reports the time since the advance as
  the exercise's elapsed time, whatever the previous exercise's start, pauses and elapsed
  time were.
\<close>

theorem advance_precedes_write:
  assumes "0 \<le> i" and "i < int (length (exercises (currentParsed s)))"
  shows "((\<exists>j. i < int j \<and> j < length (exercises (currentParsed s)) \<and>
               state (exercises (currentParsed s) ! j) = pending) \<longrightarrow>
          (\<forall>r \<in> {onExerciseFinish X i t f s, onExerciseSkip X i t f s}.
             (\<exists>k. effects r = effects s @ [AdvanceExercise k,
                    UpdateCodeBlock (serializeWorkout X (currentParsed r)) (title (metadata (currentParsed r)))] \<and>
                  isActive (currentParsed r) k) \<and>
             readsFreshTimer s r)) \<and>
     (effects (onExerciseAddSet X i t s) = effects s @ [AdvanceExercise (i + 1),
          UpdateCodeBlock (serializeWorkout X (currentParsed (onExerciseAddSet X i t s)))
            (title (metadata (currentParsed (onExerciseAddSet X i t s))))] \<and>
        isActive (currentParsed (onExerciseAddSet X i t s)) (i + 1) \<and>
        readsFreshTimer s (onExerciseAddSet X i t s)) \<and>
     ((\<exists>rest. restDuration (metadata (currentParsed s)) = Some rest \<and> rest \<noteq> 0) \<longrightarrow>
        effects (onExerciseAddRest X i t s) = effects s @ [AdvanceExercise (i + 1),
          UpdateCodeBlock (serializeWorkout X (currentParsed (onExerciseAddRest X i t s)))
            (title (metadata (currentParsed (onExerciseAddRest X i t s))))] \<and>
        isActive (currentParsed (onExerciseAddRest X i t s)) (i + 1) \<and>
        readsFreshTimer s (onExerciseAddRest X i t s))"
proof -
  let ?p = "currentParsed s"
  define pf where "pf = updateExerciseState (recordElapsed X t i ?p) i completed"
  define ps where "ps = updateExerciseState (recordElapsed X (elapsedPositive t) i ?p) i skipped"
  have sf: "exerciseStates pf = (exerciseStates ?p)[nat i := completed]"
    unfolding pf_def using assms by (rule states_after_mark)
  have ss: "exerciseStates ps = (exerciseStates ?p)[nat i := skipped]"
    unfolding ps_def using assms by (rule states_after_mark)
  have lf: "length (exercises pf) = length (exercises ?p)" "length (exercises ps) = length (exercises ?p)"
    by (simp_all add: pf_def ps_def)
  have mf: "metadata pf = metadata ?p" "metadata ps = metadata ?p"
    by (simp_all add: pf_def ps_def metadata_mutations)
  have fs: "\<exists>k. effects r = effects s @ [AdvanceExercise k,
                    UpdateCodeBlock (serializeWorkout X (currentParsed r)) (title (metadata (currentParsed r)))] \<and>
                  isActive (currentParsed r) k"
    if ex: "\<exists>j. i < int j \<and> j < length (exercises ?p) \<and> state (exercises ?p ! j) = pending"
      and r: "r = onExerciseFinish X i t f s \<or> r = onExerciseSkip X i t f s" for r
  proof -
    have nf: "0 \<le> nextPendingAfter i pf \<and> nextPendingAfter i pf < int (length (exercises pf))"
      using nextPending_exists [OF sf assms(1) ex] lf by simp
    have ns: "0 \<le> nextPendingAfter i ps \<and> nextPendingAfter i ps < int (length (exercises ps))"
      using nextPending_exists [OF ss assms(1) ex] lf by simp
    from r show ?thesis
    proof
      assume "r = onExerciseFinish X i t f s"
      then show ?thesis
        using onExerciseFinish_advance [OF assms pf_def, of f] nf
          isActive_activated [of "nextPendingAfter i pf" pf] mf
        by (simp add: metadata_mutations)
    next
      assume "r = onExerciseSkip X i t f s"
      then show ?thesis
        using onExerciseSkip_advance [OF ps_def, of f] ns
          isActive_activated [of "nextPendingAfter i ps" ps] mf
        by (simp add: metadata_mutations)
    qed
  qed
  have fs2: "readsFreshTimer s r"
    if ex: "\<exists>j. i < int j \<and> j < length (exercises ?p) \<and> state (exercises ?p ! j) = pending"
      and r: "r = onExerciseFinish X i t f s \<or> r = onExerciseSkip X i t f s" for r
    using fs [OF ex r] advance_then_write_fresh by blast
  have la: "length (exercises (addSet pf i)) = length (exercises ?p) + 1"
    using length_addSet [of i pf] assms lf by simp
  have aset: "effects (onExerciseAddSet X i t s) = effects s @ [AdvanceExercise (i + 1),
          UpdateCodeBlock (serializeWorkout X (currentParsed (onExerciseAddSet X i t s)))
            (title (metadata (currentParsed (onExerciseAddSet X i t s))))] \<and>
        isActive (currentParsed (onExerciseAddSet X i t s)) (i + 1)"
    using onExerciseAddSet_in_range [OF assms refl, of X t]
      isActive_activated [of "i + 1" "addSet pf i"] la assms
    by (simp add: pf_def)
  have aset2: "readsFreshTimer s (onExerciseAddSet X i t s)"
    using aset advance_then_write_fresh by blast
  have arest: "effects (onExerciseAddRest X i t s) = effects s @ [AdvanceExercise (i + 1),
          UpdateCodeBlock (serializeWorkout X (currentParsed (onExerciseAddRest X i t s)))
            (title (metadata (currentParsed (onExerciseAddRest X i t s))))] \<and>
        isActive (currentParsed (onExerciseAddRest X i t s)) (i + 1)"
    if rd: "restDuration (metadata ?p) = Some rest" "rest \<noteq> 0" for rest
  proof -
    have lr: "length (exercises (addRest X pf i rest)) = length (exercises ?p) + 1"
      using length_addRest [of i pf X rest] assms lf by simp
    show ?thesis
      using onExerciseAddRest_in_range [OF assms rd refl, of X t]
        isActive_activated [of "i + 1" "addRest X pf i rest"] lr assms
      by (simp add: pf_def)
  qed
  have arest2: "readsFreshTimer s (onExerciseAddRest X i t s)"
    if rd: "restDuration (metadata ?p) = Some rest" "rest \<noteq> 0" for rest
    using arest [OF rd] advance_then_write_fresh by blast
  show ?thesis using fs fs2 aset aset2 arest arest2 by blast
qed

theorem advance_precedes_write_witness:
  "(0::int) \<le> 0 \<and> 0 < int (length (exercises (currentParsed activeClosure))) \<and>
   (0 < int 1 \<and> 1 < length (exercises (currentParsed activeClosure)) \<and>
      state (exercises (currentParsed activeClosure) ! 1) = pending) \<and>
   (restDuration (metadata (currentParsed activeClosure)) = Some 45 \<and> (45::int) \<noteq> 0) \<and>
   (\<exists>k. effects (onExerciseFinish exampleExternals 0 None None activeClosure)
        = effects activeClosure @ [AdvanceExercise k,
            UpdateCodeBlock (serializeWorkout exampleExternals
                (currentParsed (onExerciseFinish exampleExternals 0 None None activeClosure)))
              (title (metadata (currentParsed (onExerciseFinish exampleExternals 0 None None activeClosure))))] \<and>
      isActive (currentParsed (onExerciseFinish exampleExternals 0 None None activeClosure)) k) \<and>
   readsFreshTimer activeClosure (onExerciseFinish exampleExternals 0 None None activeClosure) \<and>
   readsFreshTimer activeClosure (onExerciseSkip exampleExternals 0 None None activeClosure) \<and>
   effects (onExerciseAddSet exampleExternals 0 None activeClosure)
     = effects activeClosure @ [AdvanceExercise 1,
         UpdateCodeBlock (serializeWorkout exampleExternals
             (currentParsed (onExerciseAddSet exampleExternals 0 None activeClosure)))
           (title (metadata (currentParsed (onExerciseAddSet exampleExternals 0 None activeClosure))))] \<and>
   readsFreshTimer activeClosure (onExerciseAddSet exampleExternals 0 None activeClosure) \<and>
   effects (onExerciseAddRest exampleExternals 0 None activeClosure)
     = effects activeClosure @ [AdvanceExercise 1,
         UpdateCodeBlock (serializeWorkout exampleExternals
             (currentParsed (onExerciseAddRest exampleExternals 0 None activeClosure)))
           (title (metadata (currentParsed (onExerciseAddRest exampleExternals 0 None activeClosure))))] \<and>
   readsFreshTimer activeClosure (onExerciseAddRest exampleExternals 0 None activeClosure) \<and>
   map_option exerciseElapsed
     (getTimerState 1112 None
        (timerAtWrite 1100
           (drop (length (effects activeClosure))
              (effects (onExerciseAddSet exampleExternals 0 None activeClosure)))
           (Some pausedTimer))) = Some 12"
proof -
  have h0: "(0::int) \<le> 0" by simp
  have ha: "0 < int (length (exercises (currentParsed activeClosure)))"
    by (simp add: activeClosure_def createCallbacks_def activeWorkout_def)
  have hp: "0 < int 1 \<and> 1 < length (exercises (currentParsed activeClosure)) \<and>
      state (exercises (currentParsed activeClosure) ! 1) = pending"
    by (simp add: activeClosure_def createCallbacks_def activeWorkout_def plank_def)
  have hr: "restDuration (metadata (currentParsed activeClosure)) = Some 45 \<and> (45::int) \<noteq> 0"
    by (simp add: activeClosure_def createCallbacks_def activeWorkout_def)
  note t = advance_precedes_write [OF h0 ha, of exampleExternals None None]
  from hp have ex: "\<exists>j. 0 < int j \<and> j < length (exercises (currentParsed activeClosure)) \<and>
      state (exercises (currentParsed activeClosure) ! j) = pending"
    by blast
  from hr have er: "\<exists>rest. restDuration (metadata (currentParsed activeClosure)) = Some rest \<and> rest \<noteq> 0"
    by blast
  from t have fr: "readsFreshTimer activeClosure (onExerciseAddSet exampleExternals 0 None activeClosure)"
    by blast
  have q: "map_option exerciseElapsed
     (getTimerState 1112 None
        (timerAtWrite 1100
           (drop (length (effects activeClosure))
              (effects (onExerciseAddSet exampleExternals 0 None activeClosure)))
           (Some pausedTimer))) = Some (1112 - 1100)"
    using fr unfolding readsFreshTimer_def by blast
  show ?thesis
    using h0 ha hp hr t ex er q by simp
qed

section \<open>The single-active invariant\<close>

lemma isActive_count: "isActive p i \<Longrightarrow> activeCount p \<noteq> 0"
proof -
  assume "isActive p i"
  then have "nat i < length (exerciseStates p) \<and> exerciseStates p ! nat i = inProgress"
    by (auto simp: isActive_states)
  then have "inProgress \<in> set (exerciseStates p)" by (metis nth_mem)
  then show ?thesis by (auto simp: activeCount_states filter_empty_conv)
qed

lemma marked_no_active:
  assumes "isActive p i" "singleActive p" "c \<noteq> inProgress"
  shows "filter (\<lambda>s. s = inProgress) (exerciseStates (updateExerciseState (recordElapsed X t i p) i c)) = []"
proof -
  have r: "0 \<le> i" "i < int (length (exercises p))" "nat i < length (exerciseStates p)"
    "exerciseStates p ! nat i = inProgress"
    using assms(1) by (auto simp: isActive_states length_states)
  have "length (filter (\<lambda>s. s = inProgress) (exerciseStates p)) \<le> 1"
    using assms(2) by (simp add: singleActive_def activeCount_states)
  then show ?thesis
    using no_active_update [of "exerciseStates p" "nat i" c] r assms(3)
    by (simp add: states_after_mark)
qed

lemma activate_single:
  assumes "filter (\<lambda>s. s = inProgress) (exerciseStates q) = []"
  shows "singleActive (updateExerciseState q k inProgress)"
  using assms one_active_update [of "exerciseStates q" "nat k"]
  by (simp add: singleActive_def activeCount_states states_updateExerciseState)

lemma completed_no_active:
  assumes "filter (\<lambda>s. s = inProgress) (exerciseStates q) = []"
  shows "activeCount (lockAllFields (setMetadataDuration X f (setMetadataState wCompleted q))) = 0"
  using assms by (simp add: activeCount_states states_lockAllFields states_setMetadata)

lemma finish_step:
  assumes "isActive (currentParsed s) i" "singleActive (currentParsed s)"
  shows "stepResult (currentParsed s) (currentParsed (onExerciseFinish X i t f s))"
proof -
  let ?p = "currentParsed s"
  define pf where "pf = updateExerciseState (recordElapsed X t i ?p) i completed"
  have r: "0 \<le> i" "i < int (length (exercises ?p))"
    using assms(1) by (auto simp: isActive_states length_states)
  have n: "filter (\<lambda>s. s = inProgress) (exerciseStates pf) = []"
    unfolding pf_def using marked_no_active [OF assms] by simp
  show ?thesis
  proof (cases "0 \<le> nextPendingAfter i pf")
    case True
    then show ?thesis
      using onExerciseFinish_advance [OF r pf_def True, of f] activate_single [OF n]
      by (simp add: stepResult_def metadata_mutations pf_def)
  next
    case False
    then show ?thesis
      using onExerciseFinish_complete [OF r pf_def False, of f] completed_no_active [OF n, of X f]
        completion_metadata(1) [of X f pf]
      by (simp add: stepResult_def singleActive_def)
  qed
qed

lemma skip_step:
  assumes "isActive (currentParsed s) i" "singleActive (currentParsed s)"
  shows "stepResult (currentParsed s) (currentParsed (onExerciseSkip X i t f s))"
proof -
  let ?p = "currentParsed s"
  define ps where "ps = updateExerciseState (recordElapsed X (elapsedPositive t) i ?p) i skipped"
  have n: "filter (\<lambda>s. s = inProgress) (exerciseStates ps) = []"
    unfolding ps_def using marked_no_active [OF assms] by simp
  show ?thesis
  proof (cases "0 \<le> nextPendingAfter i ps")
    case True
    then show ?thesis
      using onExerciseSkip_advance [OF ps_def True, of f] activate_single [OF n]
      by (simp add: stepResult_def metadata_mutations ps_def)
  next
    case False
    then show ?thesis
      using onExerciseSkip_complete [OF ps_def False, of f] completed_no_active [OF n, of X f]
        completion_metadata(1) [of X f ps]
      by (simp add: stepResult_def singleActive_def)
  qed
qed

lemma addSet_step:
  assumes "isActive (currentParsed s) i" "singleActive (currentParsed s)"
  shows "stepResult (currentParsed s) (currentParsed (onExerciseAddSet X i t s))"
proof -
  let ?p = "currentParsed s"
  define pf where "pf = updateExerciseState (recordElapsed X t i ?p) i completed"
  have r: "0 \<le> i" "i < int (length (exercises ?p))"
    using assms(1) by (auto simp: isActive_states length_states)
  have n: "filter (\<lambda>s. s = inProgress) (exerciseStates pf) = []"
    unfolding pf_def using marked_no_active [OF assms] by simp
  have "filter (\<lambda>s. s = inProgress) (exerciseStates (addSet pf i)) = []"
    using n no_active_insert [OF n, of "nat i + 1"] by (simp add: states_addSet)
  then have "singleActive (updateExerciseState (addSet pf i) (i + 1) inProgress)"
    by (rule activate_single)
  then show ?thesis
    using onExerciseAddSet_in_range [OF r refl, of X t]
    by (simp add: stepResult_def metadata_mutations pf_def)
qed

lemma addRest_step:
  assumes "isActive (currentParsed s) i" "singleActive (currentParsed s)"
  shows "stepResult (currentParsed s) (currentParsed (onExerciseAddRest X i t s))"
proof (cases "\<exists>rest. restDuration (metadata (currentParsed s)) = Some rest \<and> rest \<noteq> 0")
  case False
  then have "currentParsed (onExerciseAddRest X i t s) = currentParsed s"
    by (auto simp: onExerciseAddRest_def Let_def split: option.splits)
  then show ?thesis using assms(2) by (simp add: stepResult_def)
next
  case True
  then obtain rest where rd: "restDuration (metadata (currentParsed s)) = Some rest" "rest \<noteq> 0"
    by blast
  let ?p = "currentParsed s"
  define pf where "pf = updateExerciseState (recordElapsed X t i ?p) i completed"
  have r: "0 \<le> i" "i < int (length (exercises ?p))"
    using assms(1) by (auto simp: isActive_states length_states)
  have n: "filter (\<lambda>s. s = inProgress) (exerciseStates pf) = []"
    unfolding pf_def using marked_no_active [OF assms] by simp
  have "filter (\<lambda>s. s = inProgress) (exerciseStates (addRest X pf i rest)) = []"
    using n no_active_insert [OF n, of "nat i + 1"] by (simp add: states_addRest)
  then have "singleActive (updateExerciseState (addRest X pf i rest) (i + 1) inProgress)"
    by (rule activate_single)
  then show ?thesis
    using onExerciseAddRest_in_range [OF r rd refl, of X t]
    by (simp add: stepResult_def metadata_mutations pf_def)
qed

lemma start_step:
  assumes "activeCount (currentParsed s) = 0"
  shows "singleActive (currentParsed (onStartWorkout X d s)) \<and>
         wstate (metadata (currentParsed (onStartWorkout X d s))) = wStarted"
proof -
  let ?p = "currentParsed s"
  let ?p1 = "?p\<lparr>metadata := (metadata ?p)\<lparr>wstate := wStarted, startDate := Some d\<rparr>\<rparr>"
  have "exerciseStates ?p1 = exerciseStates ?p"
    by (simp add: exerciseStates_def)
  then have n: "filter (\<lambda>s. s = inProgress) (exerciseStates ?p1) = []"
    using assms by (simp add: activeCount_states)
  have upd: "(case at_index (exercises ?p1) k of None \<Rightarrow> ?p1
       | Some exercise \<Rightarrow> ?p1\<lparr>exercises := (exercises ?p1)[nat k := exercise\<lparr>state := inProgress\<rparr>]\<rparr>)
     = updateExerciseState ?p1 k inProgress" for k
    by (simp add: updateExerciseState_def)
  have "singleActive ?p1"
    using n by (simp add: singleActive_def activeCount_states)
  moreover have "singleActive (updateExerciseState ?p1 k inProgress)" for k
    by (rule activate_single [OF n])
  ultimately show ?thesis
    unfolding onStartWorkout_def Let_def upd
    by (simp add: updateFile_def call_def metadata_mutations)
qed

lemma wstate_setMetadataState: "wstate (metadata (setMetadataState st p)) = st"
  by (simp add: setMetadataState_def)

lemma finishWorkout_step:
  "activeCount (currentParsed (onFinishWorkout X t s)) = activeCount (currentParsed s) \<and>
   wstate (metadata (currentParsed (onFinishWorkout X t s))) = wCompleted"
  by (simp add: onFinishWorkout_def Let_def updateFile_def call_def activeCount_states
      states_lockAllFields states_setMetadata metadata_mutations wstate_setMetadataState)

lemma exercise_step:
  assumes "enabled s a" "singleActive (currentParsed s)"
    and "\<forall>d. a \<noteq> StartWorkout d" "\<not> isFinishWorkout a"
  shows "stepResult (currentParsed s) (currentParsed (perform X s a))"
  using assms by (cases a) (simp_all add: finish_step skip_step addSet_step addRest_step)

lemma perform_inv1:
  assumes "enabled s a" "inv1 (currentParsed s)"
  shows "inv1 (currentParsed (perform X s a))"
proof (cases a)
  case (StartWorkout d)
  then show ?thesis
    using assms start_step [of s X d] by (simp add: inv1_def)
next
  case (FinishWorkout t)
  then show ?thesis
    using assms finishWorkout_step [of X t s] by (simp add: inv1_def singleActive_def)
next
  case (ExerciseFinish i t f)
  then have "stepResult (currentParsed s) (currentParsed (perform X s a))"
    using assms exercise_step [of s a X] by (simp add: inv1_def)
  moreover have "activeCount (currentParsed s) \<noteq> 0"
    using assms(1) ExerciseFinish isActive_count by simp
  ultimately show ?thesis using assms(2) by (auto simp: inv1_def stepResult_def)
next
  case (ExerciseAddSet i t)
  then have "stepResult (currentParsed s) (currentParsed (perform X s a))"
    using assms exercise_step [of s a X] by (simp add: inv1_def)
  moreover have "activeCount (currentParsed s) \<noteq> 0"
    using assms(1) ExerciseAddSet isActive_count by simp
  ultimately show ?thesis using assms(2) by (auto simp: inv1_def stepResult_def)
next
  case (ExerciseAddRest i t)
  then have "stepResult (currentParsed s) (currentParsed (perform X s a))"
    using assms exercise_step [of s a X] by (simp add: inv1_def)
  moreover have "activeCount (currentParsed s) \<noteq> 0"
    using assms(1) ExerciseAddRest isActive_count by simp
  ultimately show ?thesis using assms(2) by (auto simp: inv1_def stepResult_def)
next
  case (ExerciseSkip i t f)
  then have "stepResult (currentParsed s) (currentParsed (perform X s a))"
    using assms exercise_step [of s a X] by (simp add: inv1_def)
  moreover have "activeCount (currentParsed s) \<noteq> 0"
    using assms(1) ExerciseSkip isActive_count by simp
  ultimately show ?thesis using assms(2) by (auto simp: inv1_def stepResult_def)
qed

lemma perform_started:
  assumes "enabled s a" "inv1 (currentParsed s)" "activeOnlyWhileStarted (currentParsed s)"
    and "\<not> isFinishWorkout a"
  shows "activeOnlyWhileStarted (currentParsed (perform X s a))"
proof (cases "\<exists>d. a = StartWorkout d")
  case True
  then show ?thesis
    using assms start_step [of s X] by (auto simp: inv1_def activeOnlyWhileStarted_def)
next
  case False
  then have st: "stepResult (currentParsed s) (currentParsed (perform X s a))"
    using assms exercise_step [of s a X] by (simp add: inv1_def)
  have "isActive (currentParsed s) i" if "a = ExerciseFinish i t f \<or> a = ExerciseSkip i t f
      \<or> a = ExerciseAddSet i t \<or> a = ExerciseAddRest i t" for i t f
    using that assms(1) by auto
  then have "activeCount (currentParsed s) \<noteq> 0"
    using False assms(4) isActive_count by (cases a) auto
  then have "wstate (metadata (currentParsed s)) = wStarted"
    using assms(3) by (simp add: activeOnlyWhileStarted_def)
  then show ?thesis using st by (auto simp: stepResult_def activeOnlyWhileStarted_def)
qed

lemma legal_inv1:
  "legal X s acts \<Longrightarrow> inv1 (currentParsed s) \<Longrightarrow> inv1 (currentParsed (run X s acts))"
proof (induction acts arbitrary: s)
  case Nil
  then show ?case by (simp add: run_def)
next
  case (Cons a acts)
  then show ?case using perform_inv1 [of s a X] by (simp add: run_def)
qed

lemma legal_started:
  "legal X s acts \<Longrightarrow> \<forall>a \<in> set acts. \<not> isFinishWorkout a \<Longrightarrow> inv1 (currentParsed s) \<Longrightarrow>
   activeOnlyWhileStarted (currentParsed s) \<Longrightarrow>
   activeOnlyWhileStarted (currentParsed (run X s acts))"
proof (induction acts arbitrary: s)
  case Nil
  then show ?case by (simp add: run_def)
next
  case (Cons a acts)
  then show ?case
    using perform_inv1 [of s a X] perform_started [of s a X] by (simp add: run_def)
qed

text \<open>
  C5, as stated, fails: the callbacks do not guard against being invoked out of turn, and
  \<open>onFinishWorkout\<close> does not touch the exercise states. After start and finish of the
  workout the first exercise is still \<open>inProgress\<close> in a completed workout; starting
  twice, or finishing an exercise other than the active one, leaves two exercises
  \<open>inProgress\<close>.
\<close>

theorem single_active_counterexample:
  "wstate (metadata exampleWorkout) = wPlanned \<and> activeCount exampleWorkout = 0 \<and>
   wstate (metadata threeWorkout) = wPlanned \<and> activeCount threeWorkout = 0 \<and>
   \<not> activeOnlyWhileStarted (currentParsed (run exampleExternals (createCallbacks exampleWorkout)
       [StartWorkout startDay, FinishWorkout (Some exampleTimerState)])) \<and>
   \<not> singleActive (currentParsed (run exampleExternals (createCallbacks exampleWorkout)
       [StartWorkout startDay, StartWorkout startDay])) \<and>
   \<not> singleActive (currentParsed (run exampleExternals (createCallbacks threeWorkout)
       [StartWorkout startDay, ExerciseFinish 1 (Some exampleTimerState) (Some exampleTimerState)]))"
  by code_simp

text \<open>
  C5, amended. Starting from a parsed workout whose metadata state is planned and in
  which no exercise is \<open>inProgress\<close>, after any sequence of \<open>onStartWorkout\<close>,
  \<open>onExerciseFinish\<close>, \<open>onExerciseSkip\<close>, \<open>onExerciseAddSet\<close>, \<open>onExerciseAddRest\<close> and
  \<open>onFinishWorkout\<close> in which \<open>onStartWorkout\<close> is invoked only while the workout is
  planned and the four exercise callbacks only on the index of an exercise that is
  \<open>inProgress\<close> (as the rendered controls invoke them), at most one exercise has state
  \<open>inProgress\<close>; and when the sequence contains no \<open>onFinishWorkout\<close>, an exercise is
  \<open>inProgress\<close> only while the workout metadata state is started.
\<close>

theorem single_active_invariant:
  assumes "wstate (metadata w) = wPlanned" and "activeCount w = 0"
    and "legal X (createCallbacks w) acts"
  shows "singleActive (currentParsed (run X (createCallbacks w) acts)) \<and>
     ((\<forall>a \<in> set acts. \<not> isFinishWorkout a) \<longrightarrow>
        activeOnlyWhileStarted (currentParsed (run X (createCallbacks w) acts)))"
proof -
  have i1: "inv1 (currentParsed (createCallbacks w))"
    using assms(2) by (simp add: inv1_def singleActive_def createCallbacks_def)
  have i2: "activeOnlyWhileStarted (currentParsed (createCallbacks w))"
    using assms(2) by (simp add: activeOnlyWhileStarted_def createCallbacks_def)
  show ?thesis
    using legal_inv1 [OF assms(3) i1] legal_started [OF assms(3) _ i1 i2]
    by (auto simp: inv1_def)
qed

theorem single_active_invariant_witness:
  "wstate (metadata exampleWorkout) = wPlanned \<and> activeCount exampleWorkout = 0 \<and>
   legal exampleExternals (createCallbacks exampleWorkout) exampleSession \<and>
   singleActive (currentParsed (run exampleExternals (createCallbacks exampleWorkout) exampleSession)) \<and>
   activeOnlyWhileStarted (currentParsed (run exampleExternals (createCallbacks exampleWorkout) exampleSession))"
proof -
  have h1: "wstate (metadata exampleWorkout) = wPlanned" by (simp add: exampleWorkout_def)
  have h2: "activeCount exampleWorkout = 0"
    by (simp add: exampleWorkout_def activeCount_def squats_def plank_def)
  have h3: "legal exampleExternals (createCallbacks exampleWorkout) exampleSession" by code_simp
  have h4: "\<forall>a \<in> set exampleSession. \<not> isFinishWorkout a" by (simp add: exampleSession_def)
  show ?thesis
    using h1 h2 h3 h4 single_active_invariant [OF h1 h2 h3] by blast
qed

section \<open>Writing into the host document\<close>

lemma matching_title_is_written:
  "updateCodeBlock legDayVault ''note.md'' (Some \<lparr>lineStart = 0, lineEnd = 5\<rparr>)
       legDayText (Some ''Leg Day'') ''note.md''
     = Some (TFile (join_lines
      [''```workout'', ''title: Leg Day'', ''state: started'', ''---'', ''- [x] Lunges'', ''```'']))"
  by code_simp



section \<open>Purity of the mutation engine\<close>

subsection \<open>New cells refer to new cells\<close>

lemma cell_at_Some: "cell_at h a = Some c \<longleftrightarrow> a < length h \<and> h ! a = c"
  by (auto simp: cell_at_def)

lemma grown_refl: "grown h h"
  by (simp add: grown_def)

lemma grown_length: "grown h0 h \<Longrightarrow> length h0 \<le> length h"
  by (simp add: grown_def)

lemma grownI:
  assumes "length h0 \<le> length h" "take (length h0) h = h0"
    and "\<And>a b. length h0 \<le> a \<Longrightarrow> a < length h \<Longrightarrow> b \<in> set (refs (h ! a))
        \<Longrightarrow> length h0 \<le> b \<and> b < length h"
  shows "grown h0 h"
  unfolding grown_def using assms by blast

lemma grownD:
  assumes "grown h0 h"
  shows "length h0 \<le> length h" "take (length h0) h = h0"
    and "\<And>a b. length h0 \<le> a \<Longrightarrow> a < length h \<Longrightarrow> b \<in> set (refs (h ! a))
        \<Longrightarrow> length h0 \<le> b \<and> b < length h"
  using assms unfolding grown_def by blast+

lemma grown_append:
  assumes "grown h0 h" and "\<forall>b \<in> set (refs c). length h0 \<le> b \<and> b \<le> length h"
  shows "grown h0 (h @ [c])"
proof (rule grownI)
  show "length h0 \<le> length (h @ [c])" using grownD(1) [OF assms(1)] by simp
  show "take (length h0) (h @ [c]) = h0" using grownD(1,2) [OF assms(1)] by simp
  fix a b
  assume a: "length h0 \<le> a" "a < length (h @ [c])" and b: "b \<in> set (refs ((h @ [c]) ! a))"
  show "length h0 \<le> b \<and> b < length (h @ [c])"
  proof (cases "a < length h")
    case True
    then have "b \<in> set (refs (h ! a))" using b by (simp add: nth_append)
    then show ?thesis using grownD(3) [OF assms(1) a(1) True, of b] by simp
  next
    case False
    then have "a = length h" using a(2) by simp
    then have "b \<in> set (refs c)" using b by simp
    then show ?thesis using assms(2) by (simp add: less_Suc_eq_le)
  qed
qed

lemma grown_update:
  assumes "grown h0 h" and "length h0 \<le> a"
    and "\<forall>b \<in> set (refs c). length h0 \<le> b \<and> b < length h"
  shows "grown h0 (h[a := c])"
proof (rule grownI)
  show "length h0 \<le> length (h[a := c])" using grownD(1) [OF assms(1)] by simp
  show "take (length h0) (h[a := c]) = h0" using grownD(2) [OF assms(1)] assms(2) by simp
  fix x b
  assume x: "length h0 \<le> x" "x < length (h[a := c])" and b: "b \<in> set (refs (h[a := c] ! x))"
  show "length h0 \<le> b \<and> b < length (h[a := c])"
  proof (cases "x = a")
    case True
    then have "b \<in> set (refs c)" using b x(2) by simp
    then show ?thesis using assms(3) by simp
  next
    case False
    then have "b \<in> set (refs (h ! x))" using b by simp
    moreover have "x < length h" using x(2) by simp
    ultimately show ?thesis using grownD(3) [OF assms(1) x(1), of b] by simp
  qed
qed

lemma grown_refs:
  assumes "grown h0 h" "length h0 \<le> a" "cell_at h a = Some c" "b \<in> set (refs c)"
  shows "length h0 \<le> b \<and> b < length h"
proof -
  have "a < length h" "h ! a = c" using assms(3) by (simp_all add: cell_at_Some)
  then show ?thesis using grownD(3) [OF assms(1,2), of b] assms(4) by simp
qed

lemma grown_modifyParam: "grown h0 h \<Longrightarrow> length h0 \<le> a \<Longrightarrow> grown h0 (modifyParam f a h)"
proof -
  assume g: "grown h0 h" and a: "length h0 \<le> a"
  show ?thesis
  proof (cases "\<exists>p. cell_at h a = Some (ParamObj p)")
    case True
    then obtain p where "cell_at h a = Some (ParamObj p)" by blast
    then have "modifyParam f a h = h[a := ParamObj (f p)]" by (simp add: modifyParam_def)
    then show ?thesis using grown_update [OF g a, of "ParamObj (f p)"] by simp
  next
    case False
    then have "modifyParam f a h = h"
      by (simp add: modifyParam_def split: option.splits cell.splits)
    then show ?thesis using g by simp
  qed
qed

lemma grown_exercise_update:
  assumes g: "grown h0 h" and a: "length h0 \<le> a"
    and c: "cell_at h a = Some (ExerciseObj st nm pa td rd li)"
  shows "grown h0 (h[a := ExerciseObj st' nm' pa td' rd' li'])"
proof -
  have "length h0 \<le> pa \<and> pa < length h" using grown_refs [OF g a c] by simp
  then show ?thesis using grown_update [OF g a, of "ExerciseObj st' nm' pa td' rd' li'"] by simp
qed

lemma grown_setState: "grown h0 h \<Longrightarrow> length h0 \<le> a \<Longrightarrow> grown h0 (setState s a h)"
proof -
  assume g: "grown h0 h" and a: "length h0 \<le> a"
  show ?thesis
  proof (cases "\<exists>st nm pa td rd li. cell_at h a = Some (ExerciseObj st nm pa td rd li)")
    case True
    then obtain st nm pa td rd li where c: "cell_at h a = Some (ExerciseObj st nm pa td rd li)"
      by blast
    then have "setState s a h = h[a := ExerciseObj s nm pa td rd li]" by (simp add: setState_def)
    then show ?thesis using grown_exercise_update [OF g a c] by simp
  next
    case False
    then have "setState s a h = h"
      by (simp add: setState_def split: option.splits cell.splits)
    then show ?thesis using g by simp
  qed
qed

lemma grown_setRecorded: "grown h0 h \<Longrightarrow> length h0 \<le> a \<Longrightarrow> grown h0 (setRecorded d a h)"
proof -
  assume g: "grown h0 h" and a: "length h0 \<le> a"
  show ?thesis
  proof (cases "\<exists>st nm pa td rd li. cell_at h a = Some (ExerciseObj st nm pa td rd li)")
    case True
    then obtain st nm pa td rd li where c: "cell_at h a = Some (ExerciseObj st nm pa td rd li)"
      by blast
    then have "setRecorded d a h = h[a := ExerciseObj st nm pa td (Some d) li]"
      by (simp add: setRecorded_def)
    then show ?thesis using grown_exercise_update [OF g a c] by simp
  next
    case False
    then have "setRecorded d a h = h"
      by (simp add: setRecorded_def split: option.splits cell.splits)
    then show ?thesis using g by simp
  qed
qed

lemma grown_incLineIndex: "grown h0 h \<Longrightarrow> length h0 \<le> a \<Longrightarrow> grown h0 (incLineIndex a h)"
proof -
  assume g: "grown h0 h" and a: "length h0 \<le> a"
  show ?thesis
  proof (cases "\<exists>st nm pa td rd li. cell_at h a = Some (ExerciseObj st nm pa td rd li)")
    case True
    then obtain st nm pa td rd li where c: "cell_at h a = Some (ExerciseObj st nm pa td rd li)"
      by blast
    then have "incLineIndex a h = h[a := ExerciseObj st nm pa td rd (jsInc li)]"
      by (simp add: incLineIndex_def)
    then show ?thesis using grown_exercise_update [OF g a c] by simp
  next
    case False
    then have "incLineIndex a h = h"
      by (simp add: incLineIndex_def split: option.splits cell.splits)
    then show ?thesis using g by simp
  qed
qed

lemma grown_setElems:
  assumes g: "grown h0 h" and a: "length h0 \<le> a"
    and f: "\<forall>b \<in> set as. length h0 \<le> b \<and> b < length h"
  shows "grown h0 (setElems as a h)"
proof (cases "\<exists>old. cell_at h a = Some (ArrayObj old)")
  case True
  then obtain old where "cell_at h a = Some (ArrayObj old)" by blast
  then have "setElems as a h = h[a := ArrayObj as]" by (simp add: setElems_def)
  then show ?thesis using grown_update [OF g a, of "ArrayObj as"] f by simp
next
  case False
  then have "setElems as a h = h"
    by (simp add: setElems_def split: option.splits cell.splits)
  then show ?thesis using g by simp
qed

lemma length_setters [simp]:
  "length (modifyParam f a h) = length h"
  "length (setState s a h) = length h"
  "length (setRecorded d a h) = length h"
  "length (incLineIndex a h) = length h"
  "length (setElems as a h) = length h"
  by (auto simp: modifyParam_def setState_def setRecorded_def incLineIndex_def setElems_def
      split: option.splits cell.splits)

lemma arrayElems_Some:
  "b \<in> set (arrayElems h a) \<Longrightarrow> \<exists>as. cell_at h a = Some (ArrayObj as) \<and> b \<in> set as"
  by (cases "cell_at h a") (auto simp: arrayElems_def split: cell.splits)

lemma exercisesArray_Some:
  "exercisesArray h r = Some e \<Longrightarrow> \<exists>m rl k. cell_at h r = Some (WorkoutObj m e rl k)"
  by (cases "cell_at h r") (auto simp: exercisesArray_def split: cell.splits)

lemma paramsArray_Some:
  "paramsArray h a = Some pa \<Longrightarrow> \<exists>st nm td rd li. cell_at h a = Some (ExerciseObj st nm pa td rd li)"
  by (cases "cell_at h a") (auto simp: paramsArray_def split: cell.splits)

lemma fresh_arrayElems:
  assumes "grown h0 h" "length h0 \<le> a" "b \<in> set (arrayElems h a)"
  shows "length h0 \<le> b \<and> b < length h"
proof -
  from arrayElems_Some [OF assms(3)] obtain as
    where c: "cell_at h a = Some (ArrayObj as)" and b: "b \<in> set as" by blast
  show ?thesis using grown_refs [OF assms(1,2) c, of b] b by simp
qed

lemma fresh_exercisesArray:
  assumes "grown h0 h" "length h0 \<le> r" "exercisesArray h r = Some e"
  shows "length h0 \<le> e \<and> e < length h"
proof -
  from exercisesArray_Some [OF assms(3)] obtain m rl k
    where c: "cell_at h r = Some (WorkoutObj m e rl k)" by blast
  show ?thesis using grown_refs [OF assms(1,2) c, of e] by simp
qed

lemma fresh_paramsArray:
  assumes "grown h0 h" "length h0 \<le> a" "paramsArray h a = Some pa"
  shows "length h0 \<le> pa \<and> pa < length h"
proof -
  from paramsArray_Some [OF assms(3)] obtain st nm td rd li
    where c: "cell_at h a = Some (ExerciseObj st nm pa td rd li)" by blast
  show ?thesis using grown_refs [OF assms(1,2) c, of pa] by simp
qed

lemma fresh_exerciseRefs:
  assumes "grown h0 h" "length h0 \<le> r" "b \<in> set (exerciseRefs h r)"
  shows "length h0 \<le> b \<and> b < length h"
proof (cases "exercisesArray h r")
  case None
  then show ?thesis using assms(3) by (simp add: exerciseRefs_def)
next
  case (Some e)
  then have "b \<in> set (arrayElems h e)" using assms(3) by (simp add: exerciseRefs_def)
  then show ?thesis
    using fresh_arrayElems [OF assms(1), of e b] fresh_exercisesArray [OF assms(1,2) Some] by simp
qed

lemma fresh_paramRefs:
  assumes "grown h0 h" "length h0 \<le> a" "b \<in> set (paramRefs h a)"
  shows "length h0 \<le> b \<and> b < length h"
proof (cases "paramsArray h a")
  case None
  then show ?thesis using assms(3) by (simp add: paramRefs_def)
next
  case (Some pa)
  then have "b \<in> set (arrayElems h pa)" using assms(3) by (simp add: paramRefs_def)
  then show ?thesis
    using fresh_arrayElems [OF assms(1), of pa b] fresh_paramsArray [OF assms(1,2) Some] by simp
qed

lemma grown_fold:
  assumes step: "\<And>a h. grown h0 h \<Longrightarrow> length h0 \<le> a \<Longrightarrow> grown h0 (f a h)"
  shows "grown h0 h \<Longrightarrow> \<forall>a \<in> set as. length h0 \<le> a \<Longrightarrow> grown h0 (fold f as h)"
  by (induction as arbitrary: h) (auto intro: step)

lemma grown_lockParams: "grown h0 h \<Longrightarrow> length h0 \<le> a \<Longrightarrow> grown h0 (lockParams a h)"
  unfolding lockParams_def
  by (rule grown_fold [OF grown_modifyParam]) (auto dest: fresh_paramRefs)

subsection \<open>Allocation\<close>

lemma extends_refl: "extends h h" by (simp add: extends_def)

lemma extends_trans: "extends h h1 \<Longrightarrow> extends h1 h2 \<Longrightarrow> extends h h2"
  by (auto simp: extends_def)

lemma extends_append: "extends h (h @ t)" by (auto simp: extends_def)

lemma extends_length: "extends h h' \<Longrightarrow> length h \<le> length h'"
  by (auto simp: extends_def)

lemma extends_cell: "extends h h' \<Longrightarrow> cell_at h a = Some c \<Longrightarrow> cell_at h' a = Some c"
  by (auto simp: extends_def cell_at_def nth_append split: if_splits)

lemma allocParams_props:
  "allocParams h ps = (h', as) \<Longrightarrow> grown h0 h \<Longrightarrow>
     grown h0 h' \<and> extends h h' \<and> length as = length ps \<and>
     (\<forall>a \<in> set as. length h \<le> a \<and> a < length h')"
proof (induction ps arbitrary: h h' as)
  case Nil
  then show ?case by (simp add: extends_refl)
next
  case (Cons p ps)
  obtain h1 as1 where r: "allocParams (h @ [ParamObj p]) ps = (h1, as1)"
    by (cases "allocParams (h @ [ParamObj p]) ps")
  have eq: "h' = h1" "as = length h # as1" using Cons.prems(1) r by simp_all
  have g: "grown h0 (h @ [ParamObj p])" using grown_append [OF Cons.prems(2), of "ParamObj p"] by simp
  note ih = Cons.IH [OF r g]
  have e: "extends h h1" using ih extends_trans [OF extends_append [of h "[ParamObj p]"]] by blast
  have "length h < length h1" using ih extends_length [of "h @ [ParamObj p]" h1] by simp
  then show ?case using ih e eq by auto
qed

lemma allocExercise_props:
  assumes "allocExercise h e = (h', a)" "grown h0 h"
  shows "grown h0 h' \<and> extends h h' \<and> length h \<le> a \<and> a < length h'"
proof -
  obtain h1 pas where r: "allocParams h (params e) = (h1, pas)"
    by (cases "allocParams h (params e)")
  note p = allocParams_props [OF r assms(2)]
  let ?h2 = "h1 @ [ArrayObj pas]"
  let ?c = "ExerciseObj (state e) (name e) (length h1) (targetDuration e) (recordedDuration e) (lineIndex e)"
  have eq: "h' = ?h2 @ [?c]" "a = length ?h2" using assms(1) r by (auto simp: allocExercise_def Let_def)
  have l: "length h0 \<le> length h" "length h \<le> length h1"
    using grown_length [OF assms(2)] p extends_length by auto
  have "\<forall>b \<in> set (refs (ArrayObj pas)). length h0 \<le> b \<and> b \<le> length h1"
    using p l by auto
  then have g2: "grown h0 ?h2" using grown_append p by blast
  have "\<forall>b \<in> set (refs ?c). length h0 \<le> b \<and> b \<le> length ?h2" using l by simp
  then have g3: "grown h0 (?h2 @ [?c])" using grown_append [OF g2] by blast
  have "extends h (?h2 @ [?c])"
    using p extends_trans [of h h1 "?h2 @ [?c]"] extends_append [of h1 "[ArrayObj pas, ?c]"] by simp
  then show ?thesis using g3 eq l by simp
qed

lemma allocExercises_props:
  "allocExercises h es = (h', as) \<Longrightarrow> grown h0 h \<Longrightarrow>
     grown h0 h' \<and> extends h h' \<and> length as = length es \<and>
     (\<forall>a \<in> set as. length h \<le> a \<and> a < length h')"
proof (induction es arbitrary: h h' as)
  case Nil
  then show ?case by (simp add: extends_refl)
next
  case (Cons e es)
  obtain h1 a where r1: "allocExercise h e = (h1, a)" by (cases "allocExercise h e")
  obtain h2 as2 where r2: "allocExercises h1 es = (h2, as2)" by (cases "allocExercises h1 es")
  have eq: "h' = h2" "as = a # as2" using Cons.prems(1) r1 r2 by simp_all
  note p1 = allocExercise_props [OF r1 Cons.prems(2)]
  note ih = Cons.IH [OF r2, of ] 
  have g1: "grown h0 h1" using p1 by simp
  note p2 = Cons.IH [OF r2 g1]
  have l: "length h \<le> length h1" "length h1 \<le> length h2" using p1 p2 extends_length by auto
  have "extends h h2" using p1 p2 extends_trans by blast
  then show ?case using p1 p2 eq l by auto
qed

lemma allocWorkout_props:
  assumes "allocWorkout h w = (h', r)" "grown h0 h"
  shows "grown h0 h' \<and> extends h h' \<and> length h \<le> r \<and> r < length h'"
proof -
  obtain h1 eas where r1: "allocExercises h (exercises w) = (h1, eas)"
    by (cases "allocExercises h (exercises w)")
  note p = allocExercises_props [OF r1 assms(2)]
  let ?m = "length h1"
  let ?a = "h1 @ [MetadataObj (metadata w)]"
  let ?b = "?a @ [ArrayObj eas]"
  let ?c = "?b @ [StringsObj (rawLines w)]"
  let ?d = "?c @ [WorkoutObj ?m (?m + 1) (?m + 2) (metadataEndIndex w)]"
  have eq: "h' = ?d" "r = ?m + 3" using assms(1) r1 by (auto simp: allocWorkout_def Let_def)
  have l: "length h0 \<le> length h" "length h \<le> length h1"
    using grown_length [OF assms(2)] p extends_length by auto
  have ga: "grown h0 ?a" using grown_append [of h0 h1 "MetadataObj (metadata w)"] p by simp
  have "\<forall>b \<in> set (refs (ArrayObj eas)). length h0 \<le> b \<and> b \<le> length ?a" using p l by auto
  then have gb: "grown h0 ?b" using grown_append [OF ga] by blast
  have gc: "grown h0 ?c" using grown_append [OF gb, of "StringsObj (rawLines w)"] by simp
  have "\<forall>b \<in> set (refs (WorkoutObj ?m (?m + 1) (?m + 2) (metadataEndIndex w))).
      length h0 \<le> b \<and> b \<le> length ?c" using l by simp
  then have gd: "grown h0 ?d" using grown_append [OF gc] by blast
  have "extends h1 ?d" by (simp add: extends_def)
  then have "extends h ?d" using p extends_trans by blast
  then show ?thesis using gd eq l by simp
qed

subsection \<open>Reading values\<close>

lemma those_Cons_Some:
  "those (x # xs) = Some ys \<longleftrightarrow> (\<exists>y ys'. x = Some y \<and> those xs = Some ys' \<and> ys = y # ys')"
  by (cases x; cases "those xs") auto

lemma those_map_mono:
  "(\<And>a v. a \<in> set as \<Longrightarrow> f a = Some v \<Longrightarrow> g a = Some v) \<Longrightarrow>
     those (map f as) = Some vs \<Longrightarrow> those (map g as) = Some vs"
proof (induction as arbitrary: vs)
  case Nil
  then show ?case by simp
next
  case (Cons a as)
  from Cons.prems(2) obtain y ys' where y: "f a = Some y" "those (map f as) = Some ys'" "vs = y # ys'"
    by (auto simp: those_Cons_Some simp del: those.simps)
  have "g a = Some y" using Cons.prems(1) [of a y] y by simp
  moreover have "those (map g as) = Some ys'" using Cons.IH [of ys'] Cons.prems(1) y by simp
  ultimately show ?case using y by simp
qed

lemma those_map_nth:
  "those (map f as) = Some vs \<Longrightarrow> length vs = length as \<and> (\<forall>i<length as. f (as ! i) = Some (vs ! i))"
proof (induction as arbitrary: vs)
  case Nil
  then show ?case by simp
next
  case (Cons a as)
  from Cons.prems obtain y ys' where y: "f a = Some y" "those (map f as) = Some ys'" "vs = y # ys'"
    by (auto simp: those_Cons_Some simp del: those.simps)
  show ?case using Cons.IH [OF y(2)] y by (auto simp: nth_Cons')
qed

lemma readParam_Some: "readParam h a = Some p \<longleftrightarrow> cell_at h a = Some (ParamObj p)"
  by (cases "cell_at h a") (auto simp: readParam_def split: cell.splits)

lemma readExercise_Some:
  "readExercise h a = Some e \<longleftrightarrow>
     (\<exists>pa pas. cell_at h a = Some (ExerciseObj (state e) (name e) pa (targetDuration e)
                                  (recordedDuration e) (lineIndex e)) \<and>
        cell_at h pa = Some (ArrayObj pas) \<and> those (map (readParam h) pas) = Some (params e))"
proof (cases "cell_at h a")
  case None
  then show ?thesis by (simp add: readExercise_def)
next
  case (Some c)
  show ?thesis
  proof (cases c)
    case (ExerciseObj st nm pa td rd li)
    show ?thesis
    proof (cases "cell_at h pa")
      case None
      then show ?thesis using Some ExerciseObj by (simp add: readExercise_def)
    next
      case (Some c2)
      note s2 = this
      show ?thesis
      proof (cases c2)
        case (ArrayObj pas)
        show ?thesis
        proof (cases "those (map (readParam h) pas)")
          case None
          then show ?thesis
            using \<open>cell_at h a = Some c\<close> ExerciseObj s2 ArrayObj by (simp add: readExercise_def)
        next
          case (Some ps)
          then show ?thesis
            using \<open>cell_at h a = Some c\<close> ExerciseObj s2 ArrayObj
            by (cases e) (auto simp: readExercise_def)
        qed
      qed (use \<open>cell_at h a = Some c\<close> ExerciseObj s2 in \<open>simp_all add: readExercise_def\<close>)
    qed
  qed (use Some in \<open>simp_all add: readExercise_def\<close>)
qed


lemma readWorkout_Some:
  "readWorkout h r = Some w \<longleftrightarrow>
     (\<exists>m e rl eas. cell_at h r = Some (WorkoutObj m e rl (metadataEndIndex w)) \<and>
        cell_at h m = Some (MetadataObj (metadata w)) \<and>
        cell_at h e = Some (ArrayObj eas) \<and>
        cell_at h rl = Some (StringsObj (rawLines w)) \<and>
        those (map (readExercise h) eas) = Some (exercises w))"
proof
  assume a: "readWorkout h r = Some w"
  then obtain c where c: "cell_at h r = Some c"
    by (cases "cell_at h r") (simp_all add: readWorkout_def)
  from a c obtain m e rl k where w: "c = WorkoutObj m e rl k"
    by (cases c) (simp_all add: readWorkout_def)
  from a c w obtain cm where cm: "cell_at h m = Some cm"
    by (cases "cell_at h m") (simp_all add: readWorkout_def)
  from a c w cm obtain md where md: "cm = MetadataObj md"
    by (cases cm) (simp_all add: readWorkout_def)
  from a c w cm md obtain ce where ce: "cell_at h e = Some ce"
    by (cases "cell_at h e") (simp_all add: readWorkout_def)
  from a c w cm md ce obtain eas where eas: "ce = ArrayObj eas"
    by (cases ce) (simp_all add: readWorkout_def)
  from a c w cm md ce eas obtain cr where cr: "cell_at h rl = Some cr"
    by (cases "cell_at h rl") (simp_all add: readWorkout_def)
  from a c w cm md ce eas cr obtain ls where ls: "cr = StringsObj ls"
    by (cases cr) (simp_all add: readWorkout_def)
  from a c w cm md ce eas cr ls obtain exs where exs: "those (map (readExercise h) eas) = Some exs"
    by (cases "those (map (readExercise h) eas)") (simp_all add: readWorkout_def)
  have "w = \<lparr>metadata = md, exercises = exs, rawLines = ls, metadataEndIndex = k\<rparr>"
    using a c w cm md ce eas cr ls exs by (simp add: readWorkout_def)
  then show "\<exists>m e rl eas. cell_at h r = Some (WorkoutObj m e rl (metadataEndIndex w)) \<and>
        cell_at h m = Some (MetadataObj (metadata w)) \<and>
        cell_at h e = Some (ArrayObj eas) \<and>
        cell_at h rl = Some (StringsObj (rawLines w)) \<and>
        those (map (readExercise h) eas) = Some (exercises w)"
    using c w cm md ce eas cr ls exs by simp
next
  assume "\<exists>m e rl eas. cell_at h r = Some (WorkoutObj m e rl (metadataEndIndex w)) \<and>
        cell_at h m = Some (MetadataObj (metadata w)) \<and>
        cell_at h e = Some (ArrayObj eas) \<and>
        cell_at h rl = Some (StringsObj (rawLines w)) \<and>
        those (map (readExercise h) eas) = Some (exercises w)"
  then show "readWorkout h r = Some w"
    by (cases w) (auto simp: readWorkout_def)
qed

lemma readParam_mono: "extends h h' \<Longrightarrow> readParam h a = Some p \<Longrightarrow> readParam h' a = Some p"
  by (simp add: readParam_Some extends_cell)

lemma readExercise_mono:
  assumes "extends h h'" "readExercise h a = Some e"
  shows "readExercise h' a = Some e"
proof -
  from assms(2) obtain pa pas where
    c: "cell_at h a = Some (ExerciseObj (state e) (name e) pa (targetDuration e)
                                  (recordedDuration e) (lineIndex e))"
    "cell_at h pa = Some (ArrayObj pas)" "those (map (readParam h) pas) = Some (params e)"
    unfolding readExercise_Some by blast
  have "those (map (readParam h') pas) = Some (params e)"
    using those_map_mono [OF _ c(3), of "readParam h'"] readParam_mono [OF assms(1)] by blast
  then show ?thesis
    unfolding readExercise_Some using c extends_cell [OF assms(1)] by blast
qed

lemma readWorkout_mono:
  assumes "extends h h'" "readWorkout h r = Some w"
  shows "readWorkout h' r = Some w"
proof -
  from assms(2) obtain m e rl eas where
    c: "cell_at h r = Some (WorkoutObj m e rl (metadataEndIndex w))"
    "cell_at h m = Some (MetadataObj (metadata w))"
    "cell_at h e = Some (ArrayObj eas)"
    "cell_at h rl = Some (StringsObj (rawLines w))"
    "those (map (readExercise h) eas) = Some (exercises w)"
    unfolding readWorkout_Some by blast
  have "those (map (readExercise h') eas) = Some (exercises w)"
    using those_map_mono [OF _ c(5), of "readExercise h'"] readExercise_mono [OF assms(1)] by blast
  then show ?thesis
    unfolding readWorkout_Some using c extends_cell [OF assms(1)] by blast
qed

lemma allocParams_read:
  "allocParams h ps = (h', as) \<Longrightarrow> those (map (readParam h') as) = Some ps"
proof (induction ps arbitrary: h h' as)
  case Nil
  then show ?case by simp
next
  case (Cons p ps)
  obtain h1 as1 where r: "allocParams (h @ [ParamObj p]) ps = (h1, as1)"
    by (cases "allocParams (h @ [ParamObj p]) ps")
  have eq: "h' = h1" "as = length h # as1" using Cons.prems(1) r by simp_all
  have e: "extends (h @ [ParamObj p]) h1"
    using allocParams_props [OF r grown_refl] by simp
  have "cell_at (h @ [ParamObj p]) (length h) = Some (ParamObj p)" by (simp add: cell_at_def)
  then have "readParam h1 (length h) = Some p"
    using extends_cell [OF e] by (simp add: readParam_Some)
  then show ?case using Cons.IH [OF r] eq by simp
qed

lemma allocExercise_cells:
  assumes "allocExercise h e = (h', a)"
  shows "\<exists>pa pas. cell_at h' a = Some (ExerciseObj (state e) (name e) pa (targetDuration e)
                                  (recordedDuration e) (lineIndex e)) \<and>
        cell_at h' pa = Some (ArrayObj pas) \<and> those (map (readParam h') pas) = Some (params e)"
proof -
  obtain h1 pas where r: "allocParams h (params e) = (h1, pas)"
    by (cases "allocParams h (params e)")
  let ?c = "ExerciseObj (state e) (name e) (length h1) (targetDuration e) (recordedDuration e) (lineIndex e)"
  have eq: "h' = h1 @ [ArrayObj pas, ?c]" "a = length h1 + 1"
    using assms r by (auto simp: allocExercise_def Let_def)
  have ext: "extends h1 h'" using eq by (simp add: extends_def)
  have "those (map (readParam h') pas) = Some (params e)"
    using those_map_mono [OF _ allocParams_read [OF r], of "readParam h'"] readParam_mono [OF ext]
    by blast
  moreover have "cell_at h' a = Some ?c" "cell_at h' (length h1) = Some (ArrayObj pas)"
    using eq by (simp_all add: cell_at_def nth_append)
  ultimately show ?thesis by blast
qed

lemma allocExercise_read: "allocExercise h e = (h', a) \<Longrightarrow> readExercise h' a = Some e"
  unfolding readExercise_Some by (rule allocExercise_cells)

lemma allocExercises_read:
  "allocExercises h es = (h', as) \<Longrightarrow> those (map (readExercise h') as) = Some es"
proof (induction es arbitrary: h h' as)
  case Nil
  then show ?case by simp
next
  case (Cons e es)
  obtain h1 a where r1: "allocExercise h e = (h1, a)" by (cases "allocExercise h e")
  obtain h2 as2 where r2: "allocExercises h1 es = (h2, as2)" by (cases "allocExercises h1 es")
  have eq: "h' = h2" "as = a # as2" using Cons.prems(1) r1 r2 by simp_all
  have "extends h1 h2" using allocExercises_props [OF r2 grown_refl] by simp
  then have "readExercise h2 a = Some e"
    using readExercise_mono allocExercise_read [OF r1] by blast
  then show ?case using Cons.IH [OF r2] eq by simp
qed

lemma allocWorkout_read:
  assumes "allocWorkout h w = (h', r)"
  shows "readWorkout h' r = Some w"
proof -
  obtain h1 eas where r1: "allocExercises h (exercises w) = (h1, eas)"
    by (cases "allocExercises h (exercises w)")
  let ?m = "length h1"
  have eq: "h' = h1 @ [MetadataObj (metadata w), ArrayObj eas, StringsObj (rawLines w),
                WorkoutObj ?m (?m + 1) (?m + 2) (metadataEndIndex w)]" "r = ?m + 3"
    using assms r1 by (auto simp: allocWorkout_def Let_def)
  have ext: "extends h1 h'" using eq by (simp add: extends_def)
  have "those (map (readExercise h') eas) = Some (exercises w)"
    using those_map_mono [OF _ allocExercises_read [OF r1], of "readExercise h'"]
      readExercise_mono [OF ext] by blast
  moreover have "cell_at h' r = Some (WorkoutObj ?m (?m + 1) (?m + 2) (metadataEndIndex w))"
    "cell_at h' ?m = Some (MetadataObj (metadata w))"
    "cell_at h' (?m + 1) = Some (ArrayObj eas)"
    "cell_at h' (?m + 2) = Some (StringsObj (rawLines w))"
    using eq by (simp_all add: cell_at_def nth_append)
  ultimately show ?thesis unfolding readWorkout_Some by blast
qed

lemma exerciseRefs_read:
  assumes "readWorkout h r = Some w"
  shows "length (exerciseRefs h r) = length (exercises w) \<and>
     (\<forall>i<length (exercises w). readExercise h (exerciseRefs h r ! i) = Some (exercises w ! i))"
proof -
  from assms obtain m e rl eas where
    c: "cell_at h r = Some (WorkoutObj m e rl (metadataEndIndex w))"
    "cell_at h e = Some (ArrayObj eas)"
    "those (map (readExercise h) eas) = Some (exercises w)"
    unfolding readWorkout_Some by blast
  have "exerciseRefs h r = eas"
    using c by (simp add: exerciseRefs_def exercisesArray_def arrayElems_def)
  then show ?thesis using those_map_nth [OF c(3)] by simp
qed

subsection \<open>Reachability\<close>

lemma reach_fresh:
  assumes "grown h0 h" "length h0 \<le> r"
  shows "reach h r a \<Longrightarrow> length h0 \<le> a"
proof (induction rule: reach.induct)
  case reach_root
  then show ?case using assms(2) .
next
  case (reach_step a c b)
  then show ?case using grown_refs [OF assms(1) reach_step.IH reach_step.hyps(2), of b] by simp
qed

lemma wf_store_refs:
  assumes "wf_store h" "cell_at h a = Some c" "b \<in> set (refs c)"
  shows "b < length h"
proof -
  have "c \<in> set h" using assms(2) by (auto simp: cell_at_Some)
  then show ?thesis using assms(1,3) by (auto simp: wf_store_def list_all_iff)
qed

lemma reach_old:
  assumes "wf_store h" "r < length h"
  shows "reach h r a \<Longrightarrow> a < length h"
proof (induction rule: reach.induct)
  case reach_root
  then show ?case using assms(2) .
next
  case (reach_step a c b)
  then show ?case using wf_store_refs [OF assms(1) reach_step.hyps(2)] by simp
qed

lemma grown_extends: "grown h0 h \<Longrightarrow> extends h0 h"
proof -
  assume g: "grown h0 h"
  have "h = take (length h0) h @ drop (length h0) h" by simp
  then have "h = h0 @ drop (length h0) h" using grownD(2) [OF g] by simp
  then show ?thesis unfolding extends_def by blast
qed

lemma readWorkout_root: "readWorkout h r = Some w \<Longrightarrow> r < length h"
  by (auto simp: readWorkout_Some cell_at_Some)

lemma pureResult_fresh:
  assumes "wf_store h" "readWorkout h parsed = Some w" "grown h h'" "length h \<le> r'"
  shows "pureResult h parsed True (Some (h', r'))"
proof -
  have "readWorkout h' parsed = readWorkout h parsed"
    using readWorkout_mono [OF grown_extends [OF assms(3)] assms(2)] assms(2) by simp
  moreover have "\<not> reach h parsed a" if "reach h' r' a" for a
  proof
    assume "reach h parsed a"
    then have "a < length h" using reach_old [OF assms(1) readWorkout_root [OF assms(2)]] by blast
    moreover have "length h \<le> a" using reach_fresh [OF assms(3,4) that] .
    ultimately show False by simp
  qed
  ultimately show ?thesis
    using grownD(1,2) [OF assms(3)] by (simp add: pureResult_def)
qed

lemma pureResult_same:
  assumes "readWorkout h parsed = Some w" "grown h h'"
  shows "pureResult h parsed False (Some (h', parsed))"
proof -
  have "readWorkout h' parsed = readWorkout h parsed"
    using readWorkout_mono [OF grown_extends [OF assms(2)] assms(1)] assms(1) by simp
  then show ?thesis using grownD(1,2) [OF assms(2)] by (simp add: pureResult_def)
qed

text \<open>What \<open>structuredClone(parsed)\<close> establishes.\<close>

lemma structuredClone_props:
  assumes "readWorkout h parsed = Some w"
  obtains h1 newParsed where "structuredClone h parsed = Some (h1, newParsed)"
    and "grown h h1" and "length h \<le> newParsed" and "newParsed < length h1"
    and "readWorkout h1 newParsed = Some w"
    and "length (exerciseRefs h1 newParsed) = length (exercises w)"
proof -
  obtain h1 np where a: "allocWorkout h w = (h1, np)" by (cases "allocWorkout h w")
  have "structuredClone h parsed = Some (h1, np)" using assms a by (simp add: structuredClone_def)
  moreover note allocWorkout_props [OF a grown_refl] allocWorkout_read [OF a]
  moreover have "length (exerciseRefs h1 np) = length (exercises w)"
    using exerciseRefs_read [OF allocWorkout_read [OF a]] by simp
  ultimately show ?thesis using that by blast
qed

lemma at_index_None: "at_index xs i = None \<longleftrightarrow> \<not> (0 \<le> i \<and> i < int (length xs))"
  by (simp add: at_index_def)

lemma at_index_mem: "at_index xs i = Some x \<Longrightarrow> x \<in> set xs"
  by (auto simp: at_index_def split: if_splits)

lemma at_index_range:
  "length xs = n \<Longrightarrow> (at_index xs i = None \<longleftrightarrow> \<not> (0 \<le> i \<and> i < int n))"
  by (auto simp: at_index_def)

lemma updateExerciseState_ref_pure:
  assumes "wf_store h" "readWorkout h parsed = Some w"
  shows "pureResult h parsed (0 \<le> i \<and> i < int (length (exercises w)))
           (updateExerciseState_ref h parsed i s)"
proof -
  from structuredClone_props [OF assms(2)] obtain h1 np where
    c: "structuredClone h parsed = Some (h1, np)" "grown h h1" "length h \<le> np"
    "length (exerciseRefs h1 np) = length (exercises w)" by metis
  note rng = at_index_range [OF c(4), of i]
  show ?thesis
  proof (cases "at_index (exerciseRefs h1 np) i")
    case None
    then have r: "updateExerciseState_ref h parsed i s = Some (h1, parsed)"
      using c(1) by (simp add: updateExerciseState_ref_def)
    have b: "(0 \<le> i \<and> i < int (length (exercises w))) = False" using None rng by simp
    show ?thesis unfolding r b by (rule pureResult_same [OF assms(2) c(2)])
  next
    case (Some ex)
    then have r: "updateExerciseState_ref h parsed i s = Some (setState s ex h1, np)"
      using c(1) by (simp add: updateExerciseState_ref_def)
    have "length h \<le> ex"
      using fresh_exerciseRefs [OF c(2,3) at_index_mem [OF Some]] by simp
    then have g: "grown h (setState s ex h1)" using grown_setState [OF c(2)] by simp
    have b: "(0 \<le> i \<and> i < int (length (exercises w))) = True" using Some rng by simp
    show ?thesis unfolding r b by (rule pureResult_fresh [OF assms g c(3)])
  qed
qed

lemma updateParamValue_ref_pure:
  assumes "wf_store h" "readWorkout h parsed = Some w"
  shows "pureResult h parsed (0 \<le> i \<and> i < int (length (exercises w)))
           (updateParamValue_ref h parsed i k v)"
proof -
  from structuredClone_props [OF assms(2)] obtain h1 np where
    c: "structuredClone h parsed = Some (h1, np)" "grown h h1" "length h \<le> np"
    "length (exerciseRefs h1 np) = length (exercises w)" by metis
  note rng = at_index_range [OF c(4), of i]
  let ?b = "0 \<le> i \<and> i < int (length (exercises w))"
  show ?thesis
  proof (cases "at_index (exerciseRefs h1 np) i")
    case None
    then have r: "updateParamValue_ref h parsed i k v = Some (h1, parsed)"
      using c(1) by (simp add: updateParamValue_ref_def)
    have b: "(0 \<le> i \<and> i < int (length (exercises w))) = False" using None rng by simp
    show ?thesis unfolding r b by (rule pureResult_same [OF assms(2) c(2)])
  next
    case (Some ex)
    have ex: "length h \<le> ex"
      using fresh_exerciseRefs [OF c(2,3) at_index_mem [OF Some]] by simp
    show ?thesis
    proof (cases "find (\<lambda>a. map_option key (readParam h1 a) = Some k) (paramRefs h1 ex)")
      case None
      then have r: "updateParamValue_ref h parsed i k v = Some (h1, np)"
        using c(1) Some by (simp add: updateParamValue_ref_def)
      have b: "(0 \<le> i \<and> i < int (length (exercises w))) = True" using Some rng by simp
      show ?thesis unfolding r b by (rule pureResult_fresh [OF assms c(2) c(3)])
    next
      case (Some pa)
      note f = this
      have "pa \<in> set (paramRefs h1 ex)" using f by (auto simp: find_Some_iff)
      then have "length h \<le> pa" using fresh_paramRefs [OF c(2) ex] by simp
      then have g: "grown h (modifyParam (\<lambda>p. p\<lparr>value := v\<rparr>) pa h1)"
        using grown_modifyParam [OF c(2)] by simp
      have r: "updateParamValue_ref h parsed i k v = Some (modifyParam (\<lambda>p. p\<lparr>value := v\<rparr>) pa h1, np)"
        using c(1) \<open>at_index (exerciseRefs h1 np) i = Some ex\<close> f by (simp add: updateParamValue_ref_def)
      have b: "(0 \<le> i \<and> i < int (length (exercises w))) = True"
        using \<open>at_index (exerciseRefs h1 np) i = Some ex\<close> rng by simp
      show ?thesis unfolding r b by (rule pureResult_fresh [OF assms g c(3)])
    qed
  qed
qed

lemma lockAllFields_ref_pure:
  assumes "wf_store h" "readWorkout h parsed = Some w"
  shows "pureResult h parsed True (lockAllFields_ref h parsed)"
proof -
  from structuredClone_props [OF assms(2)] obtain h1 np where
    c: "structuredClone h parsed = Some (h1, np)" "grown h h1" "length h \<le> np" by metis
  have "\<forall>a \<in> set (exerciseRefs h1 np). length h \<le> a"
    using fresh_exerciseRefs [OF c(2,3)] by blast
  then have "grown h (fold lockParams (exerciseRefs h1 np) h1)"
    using grown_fold [of h lockParams h1 "exerciseRefs h1 np"] grown_lockParams c(2) by blast
  then show ?thesis
    using pureResult_fresh [OF assms _ c(3)] c(1) by (simp add: lockAllFields_ref_def)
qed

lemma setRecordedDuration_ref_pure:
  assumes "wf_store h" "readWorkout h parsed = Some w"
  shows "pureResult h parsed (0 \<le> i \<and> i < int (length (exercises w)))
           (setRecordedDuration_ref h parsed i d)"
proof -
  from structuredClone_props [OF assms(2)] obtain h1 np where
    c: "structuredClone h parsed = Some (h1, np)" "grown h h1" "length h \<le> np"
    "length (exerciseRefs h1 np) = length (exercises w)" by metis
  note rng = at_index_range [OF c(4), of i]
  let ?b = "0 \<le> i \<and> i < int (length (exercises w))"
  show ?thesis
  proof (cases "at_index (exerciseRefs h1 np) i")
    case None
    then have r: "setRecordedDuration_ref h parsed i d = Some (h1, parsed)"
      using c(1) by (simp add: setRecordedDuration_ref_def)
    have b: "(0 \<le> i \<and> i < int (length (exercises w))) = False" using None rng by simp
    show ?thesis unfolding r b by (rule pureResult_same [OF assms(2) c(2)])
  next
    case (Some ex)
    have ex: "length h \<le> ex"
      using fresh_exerciseRefs [OF c(2,3) at_index_mem [OF Some]] by simp
    define h2 where "h2 =
       (case find (\<lambda>a. map_option isDurationParam (readParam h1 a) = Some True) (paramRefs h1 ex) of
          Some durationParam \<Rightarrow>
            modifyParam (\<lambda>p. p\<lparr>value := d, editable := False\<rparr>) durationParam h1
        | None \<Rightarrow>
            (case paramsArray h1 ex of
               None \<Rightarrow> h1
             | Some pa \<Rightarrow>
                 setElems (arrayElems h1 pa @ [length h1]) pa
                   (h1 @ [ParamObj \<lparr>key = ''Duration'', value = d, editable = False, unit = None\<rparr>])))"
    have g2: "grown h h2"
    proof (cases "find (\<lambda>a. map_option isDurationParam (readParam h1 a) = Some True) (paramRefs h1 ex)")
      case (Some pa)
      then have "pa \<in> set (paramRefs h1 ex)" by (auto simp: find_Some_iff)
      then have "length h \<le> pa" using fresh_paramRefs [OF c(2) ex] by simp
      then show ?thesis using grown_modifyParam [OF c(2)] Some by (simp add: h2_def)
    next
      case None
      note nf = this
      show ?thesis
      proof (cases "paramsArray h1 ex")
        case None
        then show ?thesis using nf c(2) by (simp add: h2_def)
      next
        case (Some pa)
        let ?n = "ParamObj \<lparr>key = ''Duration'', value = d, editable = False, unit = None\<rparr>"
        have pa: "length h \<le> pa" using fresh_paramsArray [OF c(2) ex Some] by simp
        have ga: "grown h (h1 @ [?n])" using grown_append [OF c(2), of ?n] by simp
        have "\<forall>b \<in> set (arrayElems h1 pa @ [length h1]). length h \<le> b \<and> b < length (h1 @ [?n])"
          using fresh_arrayElems [OF c(2) pa] grown_length [OF c(2)] by fastforce
        then have "grown h (setElems (arrayElems h1 pa @ [length h1]) pa (h1 @ [?n]))"
          using grown_setElems [OF ga pa] by blast
        then show ?thesis using nf Some by (simp add: h2_def)
      qed
    qed
    have g: "grown h (setRecorded d ex h2)" using grown_setRecorded [OF g2 ex] .
    have r: "setRecordedDuration_ref h parsed i d = Some (setRecorded d ex h2, np)"
      using c(1) Some by (simp add: setRecordedDuration_ref_def h2_def Let_def)
    have b: "(0 \<le> i \<and> i < int (length (exercises w))) = True" using Some rng by simp
    show ?thesis unfolding r b by (rule pureResult_fresh [OF assms g c(3)])
  qed
qed

lemma length_fold_modifyParam [simp]: "length (fold (modifyParam f) as h) = length h"
  by (induction as arbitrary: h) simp_all

lemma addSet_ref_pure:
  assumes "wf_store h" "readWorkout h parsed = Some w"
  shows "pureResult h parsed (0 \<le> i \<and> i < int (length (exercises w))) (addSet_ref h parsed i)"
proof -
  from structuredClone_props [OF assms(2)] obtain h1 np where
    c: "structuredClone h parsed = Some (h1, np)" "grown h h1" "length h \<le> np"
    "length (exerciseRefs h1 np) = length (exercises w)"
    "readWorkout h1 np = Some w" by metis
  note rng = at_index_range [OF c(4), of i]
  show ?thesis
  proof (cases "at_index (exerciseRefs h1 np) i")
    case None
    then have r: "addSet_ref h parsed i = Some (h1, parsed)"
      using c(1) by (simp add: addSet_ref_def)
    have b: "(0 \<le> i \<and> i < int (length (exercises w))) = False" using None rng by simp
    show ?thesis unfolding r b by (rule pureResult_same [OF assms(2) c(2)])
  next
    case (Some ex)
    have b: "(0 \<le> i \<and> i < int (length (exercises w))) = True" using Some rng by simp
    have ex: "length h \<le> ex"
      using fresh_exerciseRefs [OF c(2,3) at_index_mem [OF Some]] by simp
    have exi: "ex = exerciseRefs h1 np ! nat i" "nat i < length (exercises w)"
      using Some c(4) by (auto simp: at_index_def split: if_splits)
    define ev where "ev = exercises w ! nat i"
    have rd: "readExercise h1 ex = Some ev"
      using exerciseRefs_read [OF c(5)] exi by (simp add: ev_def)
    obtain h2 copy where al: "allocExercise h1 ev = (h2, copy)" by (cases "allocExercise h1 ev")
    have cl: "structuredCloneExercise h1 ex = Some (h2, copy)"
      using rd al by (simp add: structuredCloneExercise_def)
    have g2: "grown h h2" and copy: "length h \<le> copy"
      using allocExercise_props [OF al c(2)] grown_length [OF c(2)] by simp_all
    from allocExercise_cells [OF al] obtain pa where
      cc: "cell_at h2 copy = Some (ExerciseObj (state ev) (name ev) pa (targetDuration ev)
             (recordedDuration ev) (lineIndex ev))" by blast
    have pa: "length h \<le> pa \<and> pa < length h2" using grown_refs [OF g2 copy cc, of pa] by simp
    define newExercise where "newExercise = length h2"
    define h3 where "h3 = h2 @ [ExerciseObj pending (name ev) pa (targetDuration ev) None (jsInc (lineIndex ev))]"
    define h4 where "h4 = fold (modifyParam (resetDurationParam ev)) (paramRefs h3 newExercise) h3"
    define h5 where "h5 = (case exercisesArray h4 np of
                             None \<Rightarrow> h4
                           | Some ea \<Rightarrow>
                               setElems (splice_insert (nat i + 1) newExercise (arrayElems h4 ea)) ea h4)"
    define h6 where "h6 = fold incLineIndex (drop (nat i + 2) (exerciseRefs h5 np)) h5"
    have ne: "length h \<le> newExercise" "newExercise < length h3"
      using grown_length [OF g2] by (simp_all add: newExercise_def h3_def)
    have g3: "grown h h3"
      unfolding h3_def using grown_append [OF g2] pa by simp
    have "\<forall>a \<in> set (paramRefs h3 newExercise). length h \<le> a"
      using fresh_paramRefs [OF g3 ne(1)] by blast
    then have g4: "grown h h4"
      unfolding h4_def
      using grown_fold [of h "modifyParam (resetDurationParam ev)" h3] grown_modifyParam g3 by blast
    have l4: "length h4 = length h3"
      unfolding h4_def by simp
    have g5: "grown h h5"
    proof (cases "exercisesArray h4 np")
      case None
      then show ?thesis using g4 by (simp add: h5_def)
    next
      case (Some ea)
      have ea: "length h \<le> ea" using fresh_exercisesArray [OF g4 c(3) Some] by simp
      have "\<forall>b \<in> set (splice_insert (nat i + 1) newExercise (arrayElems h4 ea)).
          length h \<le> b \<and> b < length h4"
        using fresh_arrayElems [OF g4 ea] ne l4
        by (auto simp: splice_insert_def dest!: in_set_takeD in_set_dropD)
      then show ?thesis using grown_setElems [OF g4 ea] Some by (simp add: h5_def)
    qed
    have "\<forall>a \<in> set (drop (nat i + 2) (exerciseRefs h5 np)). length h \<le> a"
      using fresh_exerciseRefs [OF g5 c(3)] by (auto dest!: in_set_dropD)
    then have g6: "grown h h6"
      unfolding h6_def
      using grown_fold [of h incLineIndex h5] grown_incLineIndex g5 by blast
    have r: "addSet_ref h parsed i = Some (h6, np)"
      unfolding addSet_ref_def h6_def h5_def h4_def h3_def newExercise_def
      by (simp only: c(1) Some rd cl cc option.case prod.case cell.case Let_def)
    show ?thesis unfolding r b by (rule pureResult_fresh [OF assms g6 c(3)])
  qed
qed

text \<open>
  The store model and the value model compute the same workouts, here on the example.
\<close>

lemma store_model_agrees_on_example:
  "readWorkout exampleStore exampleRef = Some activeWorkout"
  "map_option (\<lambda>(h, r). readWorkout h r) (updateParamValue_ref exampleStore exampleRef 0 ''Reps'' ''12'')
     = Some (Some (updateParamValue activeWorkout 0 ''Reps'' ''12''))"
  "map_option (\<lambda>(h, r). readWorkout h r) (updateExerciseState_ref exampleStore exampleRef 0 completed)
     = Some (Some (updateExerciseState activeWorkout 0 completed))"
  "map_option (\<lambda>(h, r). readWorkout h r) (lockAllFields_ref exampleStore exampleRef)
     = Some (Some (lockAllFields activeWorkout))"
  "map_option (\<lambda>(h, r). readWorkout h r) (addSet_ref exampleStore exampleRef 0)
     = Some (Some (addSet activeWorkout 0))"
  "map_option (\<lambda>(h, r). readWorkout h r) (setRecordedDuration_ref exampleStore exampleRef 0 ''42s'')
     = Some (Some (setRecordedDuration activeWorkout 0 ''42s''))"
  "map_option (\<lambda>(h, r). readWorkout h r) (setRecordedDuration_ref exampleStore exampleRef 1 ''42s'')
     = Some (Some (setRecordedDuration activeWorkout 1 ''42s''))"
  by code_simp+

text \<open>
  C4, as stated, fails in its last part: for an index out of range the four functions
  that take an index execute \<open>return parsed\<close>, so the returned workout is the input
  object itself and shares everything with it.
\<close>

theorem out_of_range_returns_alias_counterexample:
  "readWorkout exampleStore exampleRef = Some activeWorkout \<and>
   at_index (exercises activeWorkout) 2 = None \<and>
   map_option snd (updateParamValue_ref exampleStore exampleRef 2 ''Reps'' ''12'') = Some exampleRef \<and>
   map_option snd (updateExerciseState_ref exampleStore exampleRef 2 completed) = Some exampleRef \<and>
   map_option snd (addSet_ref exampleStore exampleRef 2) = Some exampleRef \<and>
   map_option snd (setRecordedDuration_ref exampleStore exampleRef 2 ''42s'') = Some exampleRef"
  by code_simp

text \<open>
  C4, amended. Every function of the mutation engine (\<open>updateParamValue\<close>,
  \<open>updateExerciseState\<close>, \<open>lockAllFields\<close>, \<open>addSet\<close>, \<open>setRecordedDuration\<close>) leaves its
  input untouched: it returns, every object that existed before the call has its old
  content after it, and so the input workout \<open>w\<close> is structurally equal to its value
  before the call. \<open>lockAllFields\<close> always, and the four functions that take an index
  whenever the index is in range, return a workout that shares no object with \<open>w\<close>; for
  an index out of range these four return \<open>w\<close> itself.
\<close>

theorem mutation_engine_purity:
  assumes "wf_store h" and "readWorkout h parsed = Some w"
  shows "pureResult h parsed True (lockAllFields_ref h parsed) \<and>
     pureResult h parsed (0 \<le> i \<and> i < int (length (exercises w)))
       (updateParamValue_ref h parsed i k v) \<and>
     pureResult h parsed (0 \<le> i \<and> i < int (length (exercises w)))
       (updateExerciseState_ref h parsed i s) \<and>
     pureResult h parsed (0 \<le> i \<and> i < int (length (exercises w)))
       (addSet_ref h parsed i) \<and>
     pureResult h parsed (0 \<le> i \<and> i < int (length (exercises w)))
       (setRecordedDuration_ref h parsed i d)"
  using lockAllFields_ref_pure [OF assms] updateParamValue_ref_pure [OF assms]
    updateExerciseState_ref_pure [OF assms] addSet_ref_pure [OF assms]
    setRecordedDuration_ref_pure [OF assms]
  by blast

theorem mutation_engine_purity_witness:
  "wf_store exampleStore \<and> readWorkout exampleStore exampleRef = Some activeWorkout \<and>
   pureResult exampleStore exampleRef True (lockAllFields_ref exampleStore exampleRef) \<and>
   pureResult exampleStore exampleRef True (updateParamValue_ref exampleStore exampleRef 0 ''Reps'' ''12'') \<and>
   pureResult exampleStore exampleRef True (updateExerciseState_ref exampleStore exampleRef 0 completed) \<and>
   pureResult exampleStore exampleRef True (addSet_ref exampleStore exampleRef 0) \<and>
   pureResult exampleStore exampleRef True (setRecordedDuration_ref exampleStore exampleRef 0 ''42s'') \<and>
   pureResult exampleStore exampleRef False (addSet_ref exampleStore exampleRef 2)"
proof -
  have h1: "wf_store exampleStore" by code_simp
  have h2: "readWorkout exampleStore exampleRef = Some activeWorkout" by code_simp
  have b0: "((0::int) \<le> 0 \<and> 0 < int (length (exercises activeWorkout))) = True"
    by (simp add: activeWorkout_def)
  have b2: "((0::int) \<le> 2 \<and> 2 < int (length (exercises activeWorkout))) = False"
    by (simp add: activeWorkout_def)
  show ?thesis
    using h1 h2
      mutation_engine_purity [OF h1 h2, of 0 "''Reps''" "''12''" completed "''42s''"]
      mutation_engine_purity [OF h1 h2, of 2 "''Reps''" "''12''" completed "''42s''"]
    unfolding b0 b2 by blast
qed

end
